theory Spec2Isabelle
  imports Complex_Main "HOL-Library.Char_ord" "HOL-Library.List_Lexorder"
begin

section \<open>Data model (models.py)\<close>

text \<open>
  One record per table of \<^verbatim>\<open>models.py\<close>, one field per column the handlers read or
  write. Primary keys and integer columns are Python integers (\<open>int\<close>), nullable columns are
  options, \<^verbatim>\<open>Plan.price\<close> is a number. The clock columns (\<^verbatim>\<open>created_at\<close>,
  \<^verbatim>\<open>updated_at\<close>) are left out: no handler below reads them. Characters are the code
  points below 256.
\<close>

record plan =
  p_id :: int
  p_name :: string
  p_price :: real
  p_billing_period :: string
  p_description :: string
  p_is_active :: bool

record agency =
  a_id :: int
  a_name :: string
  a_city :: string
  a_website :: string
  a_logo_filename :: "string option"
  a_cover_filename :: "string option"
  a_description :: string
  a_plan_id :: "int option"
  a_is_active :: bool
  a_sort_order :: int

record agency_image =
  i_id :: int
  i_agency_id :: int
  i_image_filename :: string
  i_alt_text :: string
  i_is_primary :: bool
  i_sort_order :: int

record carousel_item =
  c_id :: int
  c_image_filename :: string
  c_link_url :: string
  c_alt_text :: string
  c_is_active :: bool
  c_sort_order :: int

record contact_message =
  m_id :: int
  m_name :: string
  m_email :: string
  m_phone :: string
  m_subject :: string
  m_message :: string
  m_is_read :: bool

text \<open>
  The persisted state: every table is the list of its rows in insertion order, so an insert
  appends at the end.
\<close>

record db =
  plans :: "plan list"
  agencies :: "agency list"
  agency_images :: "agency_image list"
  carousel_items :: "carousel_item list"
  contact_messages :: "contact_message list"

text \<open>
  What a handler answers: \<^verbatim>\<open>get_or_404\<close> aborts with 404, the form handlers flash a
  message with a category, the AJAX handlers answer a JSON status, and an exception that no
  \<^verbatim>\<open>try\<close> of the handler catches ends the request with status 500.
\<close>

datatype category = Success | Error | Warning

datatype response = Abort404 | Flashed category string | Json_success | Json_error | Error500

text \<open>
  The store keeps an integer in 64 bits, signed. Binding a Python integer outside this range
  as the key of a lookup raises in the driver.
\<close>

definition storable :: "int \<Rightarrow> bool" where
  "storable k = (- 9223372036854775808 \<le> k \<and> k \<le> 9223372036854775807)"

text \<open>
  The primary key of a new row is chosen by the store; it is modelled as a key above every
  key of the table.
\<close>

definition fresh_id :: "int list \<Rightarrow> int" where
  "fresh_id ids = fold max ids 0 + 1"

section \<open>Strings and uploads (utils.py)\<close>

text \<open>
  \<^verbatim>\<open>str.strip()\<close> removes leading and trailing whitespace; \<open>py_isspace\<close> lists the
  whitespace code points below 256.
\<close>

definition py_isspace :: "char \<Rightarrow> bool" where
  "py_isspace c = (of_char c \<in> set [9, 10, 11, 12, 13, 28, 29, 30, 31, 32, 133, 160 :: nat])"

definition strip :: "string \<Rightarrow> string" where
  "strip s = rev (dropWhile py_isspace (rev (dropWhile py_isspace s)))"

definition startswith :: "string \<Rightarrow> string \<Rightarrow> bool" where
  "startswith s prefix = (take (length prefix) s = prefix)"

text \<open>\<^verbatim>\<open>str.lower()\<close> on the code points below 256.\<close>

definition lower_char :: "char \<Rightarrow> char" where
  "lower_char c =
     (let n = of_char c :: nat
      in if (65 \<le> n \<and> n \<le> 90) \<or> (192 \<le> n \<and> n \<le> 214) \<or> (216 \<le> n \<and> n \<le> 222)
         then char_of (n + 32) else c)"

text \<open>\<^verbatim>\<open>filename.rsplit('.', 1)[1]\<close>, for a filename that contains a dot.\<close>

definition rsplit_ext :: "string \<Rightarrow> string" where
  "rsplit_ext filename = rev (takeWhile (\<lambda>c. c \<noteq> CHR ''.'') (rev filename))"

definition allowed_file :: "string \<Rightarrow> bool" where
  "allowed_file filename =
     (CHR ''.'' \<in> set filename \<and>
      map lower_char (rsplit_ext filename) \<in>
        set [''png'', ''jpg'', ''jpeg'', ''gif'', ''svg'', ''webp''])"

text \<open>
  An uploaded file: the name the client gave it, and what \<^verbatim>\<open>save_uploaded_file\<close> returns
  for it (the generated name, or \<^verbatim>\<open>None\<close> when saving raised). The blob store itself is
  outside the model.
\<close>

record upload =
  u_filename :: string
  u_saved :: "string option"

section \<open>Agency images (admin_routes.py)\<close>

definition get_image :: "agency_image list \<Rightarrow> int \<Rightarrow> agency_image option" where
  "get_image imgs image_id = find (\<lambda>i. i_id i = image_id) imgs"

text \<open>
  \<^verbatim>\<open>set_primary_agency_image\<close>: the bulk update clears \<^verbatim>\<open>is_primary\<close> on every row
  with the image's \<^verbatim>\<open>agency_id\<close>, then the image itself is set, then the session commits.
  \<open>commit_ok\<close> says whether \<^verbatim>\<open>db.session.commit()\<close> succeeds; a failing commit is rolled
  back.
\<close>

definition clear_primary :: "int \<Rightarrow> agency_image list \<Rightarrow> agency_image list" where
  "clear_primary agency_id imgs =
     map (\<lambda>i. if i_agency_id i = agency_id then i\<lparr>i_is_primary := False\<rparr> else i) imgs"

definition mark_primary :: "int \<Rightarrow> agency_image list \<Rightarrow> agency_image list" where
  "mark_primary image_id imgs =
     map (\<lambda>i. if i_id i = image_id then i\<lparr>i_is_primary := True\<rparr> else i) imgs"

definition set_primary_agency_image :: "bool \<Rightarrow> int \<Rightarrow> db \<Rightarrow> response \<times> db" where
  "set_primary_agency_image commit_ok image_id s =
     (case get_image (agency_images s) image_id of
        None \<Rightarrow> (Abort404, s)
      | Some img \<Rightarrow>
          (let agency_id = i_agency_id img;
               imgs = mark_primary image_id (clear_primary agency_id (agency_images s))
           in if commit_ok
              then (Flashed Success ''Imagen principal actualizada'', s\<lparr>agency_images := imgs\<rparr>)
              else (Flashed Error ''Error al establecer imagen principal'', s)))"

section \<open>Plans (admin_routes.py)\<close>

definition get_plan :: "plan list \<Rightarrow> int \<Rightarrow> plan option" where
  "get_plan ps plan_id = find (\<lambda>p. p_id p = plan_id) ps"

text \<open>
  \<^verbatim>\<open>delete_plan\<close>: 404 for an unknown plan; the guard counts the agencies whose
  \<^verbatim>\<open>plan_id\<close> is the plan's and flashes \<^verbatim>\<open>plan_error_in_use\<close> without touching the
  session; otherwise the row is deleted and committed.
\<close>

definition delete_plan :: "bool \<Rightarrow> int \<Rightarrow> db \<Rightarrow> response \<times> db" where
  "delete_plan commit_ok plan_id s =
     (case get_plan (plans s) plan_id of
        None \<Rightarrow> (Abort404, s)
      | Some plan \<Rightarrow>
          (let agencies_count = length (filter (\<lambda>a. a_plan_id a = Some plan_id) (agencies s))
           in if agencies_count > 0 then (Flashed Error ''plan_error_in_use'', s)
              else if commit_ok
              then (Flashed Success ''plan_delete_success'',
                    s\<lparr>plans := filter (\<lambda>p. p_id p \<noteq> plan_id) (plans s)\<rparr>)
              else (Flashed Error ''plan_error_delete'', s)))"

text \<open>
  \<^verbatim>\<open>add_plan\<close>: \<open>price\<close> is \<^verbatim>\<open>request.form.get('price', type=float)\<close>, which is
  \<^verbatim>\<open>None\<close> when the field is absent or does not parse. The only checks are the empty
  name, the missing price and the name already taken.
\<close>

definition add_plan ::
  "bool \<Rightarrow> string \<Rightarrow> real option \<Rightarrow> string \<Rightarrow> string \<Rightarrow> db \<Rightarrow> response \<times> db" where
  "add_plan commit_ok name_field price billing_period description_field s =
     (let name = strip name_field; description = strip description_field
      in if name = [] \<or> price = None then (Flashed Error ''plan_error_required'', s)
         else (case find (\<lambda>p. p_name p = name) (plans s) of
                 Some existing_plan \<Rightarrow> (Flashed Error ''plan_error_exists'', s)
               | None \<Rightarrow>
                   (let plan = \<lparr>p_id = fresh_id (map p_id (plans s)), p_name = name,
                                p_price = the price, p_billing_period = billing_period,
                                p_description = description, p_is_active = True\<rparr>
                    in if commit_ok
                       then (Flashed Success ''plan_add_success'', s\<lparr>plans := plans s @ [plan]\<rparr>)
                       else (Flashed Error ''plan_error_save'', s))))"

section \<open>Agencies (admin_routes.py)\<close>

text \<open>
  The agency form. \<open>f_plan_id\<close> is \<^verbatim>\<open>request.form.get('plan_id', type=int)\<close>,
  \<open>f_is_active\<close> is \<^verbatim>\<open>'is_active' in request.form\<close> (read by \<^verbatim>\<open>edit_agency\<close> only),
  a file field is \<^verbatim>\<open>None\<close> when the key is not in \<^verbatim>\<open>request.files\<close>.
\<close>

record agency_form =
  f_name :: string
  f_city :: string
  f_website :: string
  f_description :: string
  f_plan_id :: "int option"
  f_is_active :: bool
  f_logo :: "upload option"
  f_cover :: "upload option"
  f_gallery_images :: "upload list"

text \<open>The two lines under \<^verbatim>\<open># Ensure website has protocol\<close>, in both handlers.\<close>

definition ensure_protocol :: "string \<Rightarrow> string" where
  "ensure_protocol website =
     (if \<not> (startswith website ''http://'' \<or> startswith website ''https://'')
      then ''https://'' @ website else website)"

text \<open>\<^verbatim>\<open>db.func.max(...)\<close> over a column is NULL on an empty table; \<^verbatim>\<open>or 0\<close> after it.\<close>

definition sql_max :: "int list \<Rightarrow> int option" where
  "sql_max xs = (case xs of [] \<Rightarrow> None | x # ys \<Rightarrow> Some (fold max ys x))"

definition or_0 :: "int option \<Rightarrow> int" where
  "or_0 v = (case v of None \<Rightarrow> 0 | Some m \<Rightarrow> if m = 0 then 0 else m)"

text \<open>A logo or cover is stored only when the file has a name with an allowed extension.\<close>

definition accepted :: "upload \<Rightarrow> bool" where
  "accepted u = (u_filename u \<noteq> [] \<and> allowed_file (u_filename u))"

definition add_agency :: "bool \<Rightarrow> agency_form \<Rightarrow> db \<Rightarrow> response \<times> db" where
  "add_agency commit_ok form s =
     (let name = strip (f_name form); city = strip (f_city form);
          website = strip (f_website form); description = strip (f_description form);
          plan_id = f_plan_id form
      in if name = [] \<or> city = [] \<or> website = []
         then (Flashed Error ''agency_error_required'', s)
         else
          (let website = ensure_protocol website;
               logo_filename = (case f_logo form of None \<Rightarrow> None
                                | Some u \<Rightarrow> if accepted u then u_saved u else None);
               cover_filename = (case f_cover form of None \<Rightarrow> None
                                 | Some u \<Rightarrow> if accepted u then u_saved u else None);
               max_order = or_0 (sql_max (map a_sort_order (agencies s)));
               agency = \<lparr>a_id = fresh_id (map a_id (agencies s)), a_name = name, a_city = city,
                         a_website = website, a_logo_filename = logo_filename,
                         a_cover_filename = cover_filename, a_description = description,
                         a_plan_id = plan_id, a_is_active = True,
                         a_sort_order = max_order + 1\<rparr>
           in if commit_ok
              then (Flashed Success ''agency_add_success'', s\<lparr>agencies := agencies s @ [agency]\<rparr>)
              else (Flashed Error ''agency_error_save'', s)))"

definition get_agency :: "agency list \<Rightarrow> int \<Rightarrow> agency option" where
  "get_agency ags agency_id = find (\<lambda>a. a_id a = agency_id) ags"

text \<open>Flushing a modified object writes it over the row with its primary key.\<close>

definition put_agency :: "agency \<Rightarrow> agency list \<Rightarrow> agency list" where
  "put_agency agency ags = map (\<lambda>a. if a_id a = a_id agency then agency else a) ags"

text \<open>
  The gallery loop of \<^verbatim>\<open>edit_agency\<close>. \<^verbatim>\<open>agency.images\<close> is the relationship collection of
  the agency object: the session loads it when it is first read and keeps it for the rest of
  the request, and a row created with \<^verbatim>\<open>agency_id\<close> set directly does not enter it. So
  \<^verbatim>\<open>len(agency.images)\<close> is \<open>n\<close>, the number of the agency's images when the request began.
\<close>

fun gallery_loop :: "agency \<Rightarrow> nat \<Rightarrow> upload list \<Rightarrow> agency_image list \<Rightarrow> agency_image list" where
  "gallery_loop agency n [] imgs = imgs"
| "gallery_loop agency n (gallery_file # rest) imgs =
     (if accepted gallery_file
      then (case u_saved gallery_file of
              None \<Rightarrow> gallery_loop agency n rest imgs
            | Some image_filename \<Rightarrow>
                if image_filename = [] then gallery_loop agency n rest imgs
                else gallery_loop agency n rest
                       (imgs @ [\<lparr>i_id = fresh_id (map i_id imgs), i_agency_id = a_id agency,
                                 i_image_filename = image_filename,
                                 i_alt_text = ''Imagen de '' @ a_name agency,
                                 i_is_primary = False, i_sort_order = int n\<rparr>]))
      else gallery_loop agency n rest imgs)"

definition edit_agency :: "bool \<Rightarrow> int \<Rightarrow> agency_form \<Rightarrow> db \<Rightarrow> response \<times> db" where
  "edit_agency commit_ok agency_id form s =
     (case get_agency (agencies s) agency_id of
        None \<Rightarrow> (Abort404, s)
      | Some found \<Rightarrow>
          (let agency = found\<lparr>a_name := strip (f_name form), a_city := strip (f_city form),
                              a_website := strip (f_website form),
                              a_description := strip (f_description form),
                              a_plan_id := f_plan_id form, a_is_active := f_is_active form\<rparr>
           in if a_name agency = [] \<or> a_city agency = [] \<or> a_website agency = []
              then (Flashed Error ''agency_error_required'', s)
              else
               (let agency = agency\<lparr>a_website := ensure_protocol (a_website agency)\<rparr>;
                    agency = (case f_logo form of None \<Rightarrow> agency
                              | Some u \<Rightarrow> if accepted u
                                          then agency\<lparr>a_logo_filename := u_saved u\<rparr> else agency);
                    agency = (case f_cover form of None \<Rightarrow> agency
                              | Some u \<Rightarrow> if accepted u
                                          then agency\<lparr>a_cover_filename := u_saved u\<rparr> else agency);
                    n = length (filter (\<lambda>i. i_agency_id i = a_id agency) (agency_images s));
                    imgs = gallery_loop agency n (f_gallery_images form) (agency_images s)
                in if commit_ok
                   then (Flashed Success ''agency_edit_success'',
                         s\<lparr>agencies := put_agency agency (agencies s), agency_images := imgs\<rparr>)
                   else (Flashed Error ''agency_error_save'', s))))"

text \<open>
  \<^verbatim>\<open>reorder_agencies\<close>: the loop over \<^verbatim>\<open>enumerate(agency_ids)\<close>, then the commit, all
  inside the \<^verbatim>\<open>try\<close>. The ids of the JSON body are integers here. The loop is \<^verbatim>\<open>None\<close>
  when \<^verbatim>\<open>Agency.query.get\<close> raises, which it does on an id that is not \<open>storable\<close>;
  the handler then rolls back what the loop had assigned and answers the error status, as
  it does when the commit fails.
\<close>

fun reorder_agencies_loop :: "nat \<Rightarrow> int list \<Rightarrow> agency list \<Rightarrow> agency list option" where
  "reorder_agencies_loop index [] ags = Some ags"
| "reorder_agencies_loop index (agency_id # rest) ags =
     (if \<not> storable agency_id then None
      else reorder_agencies_loop (index + 1) rest
             (case get_agency ags agency_id of
                None \<Rightarrow> ags
              | Some agency \<Rightarrow> put_agency (agency\<lparr>a_sort_order := int index\<rparr>) ags))"

definition reorder_agencies :: "bool \<Rightarrow> int list \<Rightarrow> db \<Rightarrow> response \<times> db" where
  "reorder_agencies commit_ok agency_ids s =
     (case reorder_agencies_loop 0 agency_ids (agencies s) of
        None \<Rightarrow> (Json_error, s)
      | Some ags \<Rightarrow>
          if commit_ok then (Json_success, s\<lparr>agencies := ags\<rparr>) else (Json_error, s))"

section \<open>Carousel (admin_routes.py)\<close>

definition get_item :: "carousel_item list \<Rightarrow> int \<Rightarrow> carousel_item option" where
  "get_item items item_id = find (\<lambda>c. c_id c = item_id) items"

definition put_item :: "carousel_item \<Rightarrow> carousel_item list \<Rightarrow> carousel_item list" where
  "put_item item items = map (\<lambda>c. if c_id c = c_id item then item else c) items"

text \<open>
  \<^verbatim>\<open>add_carousel_item\<close>; \<open>image_file\<close> is \<^verbatim>\<open>None\<close> when \<^verbatim>\<open>'image'\<close> is not in
  \<^verbatim>\<open>request.files\<close>. The Spanish messages are written without their accents.
\<close>

definition add_carousel_item ::
  "bool \<Rightarrow> upload option \<Rightarrow> string \<Rightarrow> string \<Rightarrow> db \<Rightarrow> response \<times> db" where
  "add_carousel_item commit_ok image_file link_url alt_text s =
     (case image_file of
        None \<Rightarrow> (Flashed Error ''No se selecciono ninguna imagen'', s)
      | Some u \<Rightarrow>
          if u_filename u = [] then (Flashed Error ''No se selecciono ninguna imagen'', s)
          else if \<not> allowed_file (u_filename u)
          then (Flashed Error ''Formato de imagen no permitido'', s)
          else (case u_saved u of
                  None \<Rightarrow> (Flashed Error ''Error al guardar la imagen'', s)
                | Some image_filename \<Rightarrow>
                    if image_filename = [] then (Flashed Error ''Error al guardar la imagen'', s)
                    else
                     (let item = \<lparr>c_id = fresh_id (map c_id (carousel_items s)),
                                  c_image_filename = image_filename,
                                  c_link_url = strip link_url, c_alt_text = strip alt_text,
                                  c_is_active = True,
                                  c_sort_order = int (length (carousel_items s))\<rparr>
                      in if commit_ok
                         then (Flashed Success ''Imagen agregada al carrusel exitosamente'',
                               s\<lparr>carousel_items := carousel_items s @ [item]\<rparr>)
                         else (Flashed Error ''Error al agregar la imagen'', s))))"

text \<open>
  \<^verbatim>\<open>delete_carousel_item\<close>: \<^verbatim>\<open>get_or_404\<close> is outside the \<^verbatim>\<open>try\<close>; the row is
  deleted and the session committed. No other row is written: the remaining items keep
  their \<^verbatim>\<open>sort_order\<close>.
\<close>

definition delete_carousel_item :: "bool \<Rightarrow> int \<Rightarrow> db \<Rightarrow> response \<times> db" where
  "delete_carousel_item commit_ok item_id s =
     (if \<not> storable item_id then (Error500, s)
      else (case get_item (carousel_items s) item_id of
              None \<Rightarrow> (Abort404, s)
            | Some item \<Rightarrow>
                if commit_ok
                then (Flashed Success ''Imagen eliminada del carrusel exitosamente'',
                      s\<lparr>carousel_items := filter (\<lambda>c. c_id c \<noteq> item_id) (carousel_items s)\<rparr>)
                else (Flashed Error ''Error al eliminar la imagen'', s)))"

text \<open>
  \<^verbatim>\<open>reorder_carousel\<close>, of the same shape as \<^verbatim>\<open>reorder_agencies\<close>: the loop is
  \<^verbatim>\<open>None\<close> when \<^verbatim>\<open>CarouselItem.query.get\<close> raises.
\<close>

fun reorder_carousel_loop ::
  "nat \<Rightarrow> int list \<Rightarrow> carousel_item list \<Rightarrow> carousel_item list option" where
  "reorder_carousel_loop index [] items = Some items"
| "reorder_carousel_loop index (item_id # rest) items =
     (if \<not> storable item_id then None
      else reorder_carousel_loop (index + 1) rest
             (case get_item items item_id of
                None \<Rightarrow> items
              | Some item \<Rightarrow> put_item (item\<lparr>c_sort_order := int index\<rparr>) items))"

definition reorder_carousel :: "bool \<Rightarrow> int list \<Rightarrow> db \<Rightarrow> response \<times> db" where
  "reorder_carousel commit_ok item_ids s =
     (case reorder_carousel_loop 0 item_ids (carousel_items s) of
        None \<Rightarrow> (Json_error, s)
      | Some items \<Rightarrow>
          if commit_ok then (Json_success, s\<lparr>carousel_items := items\<rparr>) else (Json_error, s))"

section \<open>Adding agency images (admin_routes.py)\<close>

text \<open>Decimal digits of a count, for the message that reports it.\<close>

fun str_nat :: "nat \<Rightarrow> string" where
  "str_nat n =
     (if n < 10 then [char_of (48 + n)] else str_nat (n div 10) @ [char_of (48 + n mod 10)])"

text \<open>
  The loop of \<^verbatim>\<open>add_agency_images\<close> over the uploaded files. It carries the table with the
  rows added so far (the count query flushes them first, so it sees them) and
  \<^verbatim>\<open>added_count\<close>. \<open>loaded\<close> is \<^verbatim>\<open>agency.images\<close>, the relationship collection of the
  agency object fetched by \<^verbatim>\<open>get_or_404\<close>: the session loads it when it is first read and
  keeps it for the rest of the request, and a row created with \<^verbatim>\<open>agency_id\<close> set directly
  does not enter it.
\<close>

fun add_images_loop ::
  "int \<Rightarrow> string \<Rightarrow> agency_image list \<Rightarrow> upload list \<Rightarrow> agency_image list \<times> nat \<Rightarrow>
   agency_image list \<times> nat" where
  "add_images_loop agency_id alt loaded [] acc = acc"
| "add_images_loop agency_id alt loaded (image_file # rest) (imgs, added_count) =
     (if accepted image_file
      then (case u_saved image_file of
              None \<Rightarrow> add_images_loop agency_id alt loaded rest (imgs, added_count)
            | Some image_filename \<Rightarrow>
                if image_filename = []
                then add_images_loop agency_id alt loaded rest (imgs, added_count)
                else add_images_loop agency_id alt loaded rest
                       (imgs @ [\<lparr>i_id = fresh_id (map i_id imgs), i_agency_id = agency_id,
                                 i_image_filename = image_filename, i_alt_text = alt,
                                 i_is_primary = (loaded = []),
                                 i_sort_order =
                                   int (length (filter (\<lambda>i. i_agency_id i = agency_id) imgs))\<rparr>],
                        added_count + 1))
      else add_images_loop agency_id alt loaded rest (imgs, added_count))"

text \<open>
  \<open>images\<close> is \<^verbatim>\<open>None\<close> when \<^verbatim>\<open>'images'\<close> is not in \<^verbatim>\<open>request.files\<close>;
  \<open>alt_text\<close> is the form field, \<^verbatim>\<open>None\<close> when absent.
\<close>

definition add_agency_images ::
  "bool \<Rightarrow> int \<Rightarrow> upload list option \<Rightarrow> string option \<Rightarrow> db \<Rightarrow> response \<times> db" where
  "add_agency_images commit_ok agency_id images alt_text s =
     (case get_agency (agencies s) agency_id of
        None \<Rightarrow> (Abort404, s)
      | Some agency \<Rightarrow>
          (case images of
             None \<Rightarrow> (Flashed Error ''No se seleccionaron imagenes'', s)
           | Some files \<Rightarrow>
               (let alt = (case alt_text of None \<Rightarrow> ''Imagen de '' @ a_name agency | Some t \<Rightarrow> t);
                    loaded = filter (\<lambda>i. i_agency_id i = agency_id) (agency_images s);
                    (imgs, added_count) =
                       add_images_loop agency_id alt loaded files (agency_images s, 0)
                in if added_count > 0
                   then (if commit_ok
                         then (Flashed Success
                                 (str_nat added_count @ '' imagen(es) agregada(s) exitosamente''),
                               s\<lparr>agency_images := imgs\<rparr>)
                         else (Flashed Error ''Error al agregar las imagenes'', s))
                   else (Flashed Warning ''No se agregaron imagenes validas'', s))))"

section \<open>Public pages (routes.py)\<close>

text \<open>
  The agency query of \<^verbatim>\<open>index\<close>: \<^verbatim>\<open>Agency.query.join(Plan)\<close> is the inner join on the
  foreign key, filtered on \<^verbatim>\<open>is_active\<close>, ordered by plan name descending and then by
  \<^verbatim>\<open>sort_order\<close> ascending. Strings compare code point by code point. Rows that the order
  does not separate keep the order of the join.
\<close>

definition join_plan :: "agency list \<Rightarrow> plan list \<Rightarrow> (agency \<times> plan) list" where
  "join_plan ags ps = concat (map (\<lambda>a. map (Pair a) (filter (\<lambda>p. a_plan_id a = Some (p_id p)) ps)) ags)"

definition listing_le :: "agency \<times> plan \<Rightarrow> agency \<times> plan \<Rightarrow> bool" where
  "listing_le x y =
     (p_name (snd y) < p_name (snd x) \<or>
      (p_name (snd x) = p_name (snd y) \<and> a_sort_order (fst x) \<le> a_sort_order (fst y)))"

fun insort_by :: "('a \<Rightarrow> 'a \<Rightarrow> bool) \<Rightarrow> 'a \<Rightarrow> 'a list \<Rightarrow> 'a list" where
  "insort_by le x [] = [x]"
| "insort_by le x (y # ys) = (if le x y then x # y # ys else y # insort_by le x ys)"

definition order_by :: "('a \<Rightarrow> 'a \<Rightarrow> bool) \<Rightarrow> 'a list \<Rightarrow> 'a list" where
  "order_by le xs = foldr (insort_by le) xs []"

text \<open>
  The order in which the carousel items are shown: the admin view \<^verbatim>\<open>carousel\<close> reads
  them with \<^verbatim>\<open>order_by(CarouselItem.sort_order.asc())\<close>, and \<^verbatim>\<open>index\<close> reads the active
  ones in the same order.
\<close>

definition carousel_listing :: "db \<Rightarrow> carousel_item list" where
  "carousel_listing s = order_by (\<lambda>x y. c_sort_order x \<le> c_sort_order y) (carousel_items s)"

definition index_agencies :: "db \<Rightarrow> agency list" where
  "index_agencies s =
     map fst (order_by listing_le
                (filter (\<lambda>(a, p). a_is_active a) (join_plan (agencies s) (plans s))))"

text \<open>The agencies that \<^verbatim>\<open>sitemap_xml\<close> lists: \<^verbatim>\<open>Agency.query.filter_by(is_active=True)\<close>.\<close>

definition sitemap_agencies :: "db \<Rightarrow> agency list" where
  "sitemap_agencies s = filter a_is_active (agencies s)"

text \<open>
  \<^verbatim>\<open>contact\<close> on a POST. \<open>commit_ok\<close> says whether the commit of the new row succeeds,
  \<open>email_ok\<close> is what \<^verbatim>\<open>send_contact_email\<close> returns (it catches every exception and
  returns \<^verbatim>\<open>False\<close>). The third component lists the effects in the order the handler
  performs them.
\<close>

record contact_form =
  cf_name :: string
  cf_email :: string
  cf_phone :: string
  cf_subject :: string
  cf_message :: string

datatype effect = Db_commit | Db_rollback | Send_contact_email

definition contact :: "bool \<Rightarrow> bool \<Rightarrow> contact_form \<Rightarrow> db \<Rightarrow> response \<times> db \<times> effect list" where
  "contact commit_ok email_ok form s =
     (let name = strip (cf_name form); email = strip (cf_email form);
          phone = strip (cf_phone form); subject = strip (cf_subject form);
          message_text = strip (cf_message form)
      in if name = [] \<or> email = [] \<or> subject = [] \<or> message_text = []
         then (Flashed Error ''contact_error_required'', s, [])
         else
          (let contact_message = \<lparr>m_id = fresh_id (map m_id (contact_messages s)),
                                   m_name = name, m_email = email, m_phone = phone,
                                   m_subject = subject, m_message = message_text,
                                   m_is_read = False\<rparr>
           in if commit_ok
              then (let committed = s\<lparr>contact_messages := contact_messages s @ [contact_message]\<rparr>
                    in if email_ok
                       then (Flashed Success ''contact_success'', committed,
                             [Db_commit, Send_contact_email])
                       else (Flashed Warning ''contact_email_error'', committed,
                             [Db_commit, Send_contact_email]))
              else (Flashed Error ''contact_error_save'', s, [Db_rollback])))"

section \<open>Notions used to state the properties\<close>

text \<open>
  A sequence of \<^verbatim>\<open>add_agency\<close> requests, served one after the other; each request comes
  with the outcome of its commit. The responses are returned with the final state.
\<close>

fun create_agencies :: "(bool \<times> agency_form) list \<Rightarrow> db \<Rightarrow> response list \<times> db" where
  "create_agencies [] s = ([], s)"
| "create_agencies ((commit_ok, form) # rest) s =
     (let (r, s1) = add_agency commit_ok form s;
          (rs, s2) = create_agencies rest s1
      in (r # rs, s2))"

text \<open>The largest \<^verbatim>\<open>sort_order\<close> among the given agencies, and 0 when there is none.\<close>

definition max_existing :: "agency list \<Rightarrow> int" where
  "max_existing ags = (if ags = [] then 0 else Max (a_sort_order ` set ags))"

text \<open>
  What the reorder loops leave in the \<^verbatim>\<open>sort_order\<close> of the row with key \<open>k\<close>: the
  position of the last occurrence of \<open>k\<close> in the list (counted from \<open>index\<close>), or the old
  value when \<open>k\<close> is not listed.
\<close>

fun new_order :: "nat \<Rightarrow> int list \<Rightarrow> int \<Rightarrow> int \<Rightarrow> int" where
  "new_order index [] k old = old"
| "new_order index (x # xs) k old = new_order (index + 1) xs k (if x = k then int index else old)"

text \<open>
  The spec's words for the website rule are \<open>no scheme present\<close>. In their usual sense a
  value carries a scheme when it starts with a scheme name (a letter, then letters, digits,
  \<open>+\<close>, \<open>-\<close> or \<open>.\<close>) followed by \<open>://\<close>.
\<close>

definition scheme_char :: "char \<Rightarrow> bool" where
  "scheme_char c =
     (let n = of_char c :: nat
      in (65 \<le> n \<and> n \<le> 90) \<or> (97 \<le> n \<and> n \<le> 122) \<or> (48 \<le> n \<and> n \<le> 57)
         \<or> c \<in> set ''+-.'')"

definition carries_scheme :: "string \<Rightarrow> bool" where
  "carries_scheme w =
     (case takeWhile scheme_char w of
        [] \<Rightarrow> False
      | c # cs \<Rightarrow> (let n = of_char c :: nat in (65 \<le> n \<and> n \<le> 90) \<or> (97 \<le> n \<and> n \<le> 122))
                 \<and> startswith (dropWhile scheme_char w) ''://'')"

text \<open>
  A sequence of \<^verbatim>\<open>add_carousel_item\<close> requests, served one after the other, and the
  response of a successful one.
\<close>

fun add_carousel_items ::
  "(bool \<times> upload option \<times> string \<times> string) list \<Rightarrow> db \<Rightarrow> response list \<times> db" where
  "add_carousel_items [] s = ([], s)"
| "add_carousel_items ((commit_ok, image_file, link_url, alt_text) # rest) s =
     (let (r, s1) = add_carousel_item commit_ok image_file link_url alt_text s;
          (rs, s2) = add_carousel_items rest s1
      in (r # rs, s2))"

definition added_ok :: response where
  "added_ok = Flashed Success ''Imagen agregada al carrusel exitosamente''"

text \<open>The row that \<^verbatim>\<open>contact\<close> builds from a form.\<close>

definition new_message :: "contact_form \<Rightarrow> db \<Rightarrow> contact_message" where
  "new_message form s =
     \<lparr>m_id = fresh_id (map m_id (contact_messages s)), m_name = strip (cf_name form),
      m_email = strip (cf_email form), m_phone = strip (cf_phone form),
      m_subject = strip (cf_subject form), m_message = strip (cf_message form),
      m_is_read = False\<rparr>"

section \<open>A sample state\<close>

text \<open>
  Two plans, two agencies (one without a plan), three images and three carousel items, an
  empty state and an agency form, as sample data.
\<close>

definition example_db :: db where
  "example_db =
     \<lparr>plans = [\<lparr>p_id = 1, p_name = ''Basic'', p_price = 9, p_billing_period = ''monthly'',
                 p_description = [], p_is_active = True\<rparr>,
                \<lparr>p_id = 2, p_name = ''Premium'', p_price = 19, p_billing_period = ''monthly'',
                 p_description = [], p_is_active = True\<rparr>],
      agencies = [\<lparr>a_id = 1, a_name = ''Century'', a_city = ''Marseille'',
                    a_website = ''https://century.example'', a_logo_filename = None,
                    a_cover_filename = None, a_description = [], a_plan_id = Some 2,
                    a_is_active = True, a_sort_order = 1\<rparr>,
                   \<lparr>a_id = 2, a_name = ''Orpi'', a_city = ''Aix'',
                    a_website = ''https://orpi.example'', a_logo_filename = None,
                    a_cover_filename = None, a_description = [], a_plan_id = None,
                    a_is_active = True, a_sort_order = 2\<rparr>],
      agency_images = [\<lparr>i_id = 1, i_agency_id = 1, i_image_filename = ''a.png'', i_alt_text = [],
                         i_is_primary = True, i_sort_order = 0\<rparr>,
                        \<lparr>i_id = 2, i_agency_id = 1, i_image_filename = ''b.png'', i_alt_text = [],
                         i_is_primary = False, i_sort_order = 1\<rparr>,
                        \<lparr>i_id = 3, i_agency_id = 2, i_image_filename = ''c.png'', i_alt_text = [],
                         i_is_primary = True, i_sort_order = 0\<rparr>],
      carousel_items = [\<lparr>c_id = 1, c_image_filename = ''x.jpg'', c_link_url = [], c_alt_text = [],
                          c_is_active = True, c_sort_order = 0\<rparr>,
                         \<lparr>c_id = 2, c_image_filename = ''y.jpg'', c_link_url = [], c_alt_text = [],
                          c_is_active = True, c_sort_order = 1\<rparr>,
                         \<lparr>c_id = 3, c_image_filename = ''z.jpg'', c_link_url = [], c_alt_text = [],
                          c_is_active = False, c_sort_order = 2\<rparr>],
      contact_messages = []\<rparr>"

definition example_form :: agency_form where
  "example_form =
     \<lparr>f_name = ''Nova'', f_city = '' Marseille '', f_website = ''example.com'',
      f_description = [], f_plan_id = None, f_is_active = True, f_logo = None,
      f_cover = None, f_gallery_images = []\<rparr>"

definition empty_db :: db where
  "empty_db = \<lparr>plans = [], agencies = [], agency_images = [], carousel_items = [],
                contact_messages = []\<rparr>"

definition example_upload :: upload where
  "example_upload = \<lparr>u_filename = ''Photo.JPG'', u_saved = Some ''0f3a.JPG''\<rparr>"

text \<open>Three items added to the empty state, then the first two deleted.\<close>

definition example_after_deletes :: db where
  "example_after_deletes =
     snd (delete_carousel_item True 2
       (snd (delete_carousel_item True 1
         (snd (add_carousel_items
                 [(True, Some example_upload, [], []), (True, Some example_upload, [], []),
                  (True, Some example_upload, [], [])] empty_db)))))"

definition example_contact :: contact_form where
  "example_contact =
     \<lparr>cf_name = ''Ana'', cf_email = ''ana@example.com'', cf_phone = [],
      cf_subject = ''Visit'', cf_message = '' Hello ''\<rparr>"

section \<open>Primary image\<close>

lemma filter_key_single:
  "distinct (map f xs) \<Longrightarrow> x \<in> set xs \<Longrightarrow> filter (\<lambda>y. f y = f x) xs = [x]"
proof (induction xs)
  case Nil
  then show ?case by simp
next
  case (Cons z zs)
  show ?case
  proof (cases "z = x")
    case True
    with Cons.prems have "\<forall>y\<in>set zs. f y \<noteq> f x" by (auto simp: image_iff)
    then have "filter (\<lambda>y. f y = f x) zs = []" by (simp add: filter_empty_conv)
    with True show ?thesis by simp
  next
    case False
    with Cons.prems have xin: "x \<in> set zs" and "f z \<noteq> f x" by (auto simp: image_iff)
    with Cons show ?thesis by simp
  qed
qed

lemma find_key_Some:
  "find (\<lambda>y. f y = k) xs = Some x \<Longrightarrow> x \<in> set xs \<and> f x = k"
  by (auto simp: find_Some_iff)

lemma set_primary_rows:
  assumes d: "distinct (map i_id imgs)" and g: "get_image imgs image_id = Some img"
  defines "res \<equiv> mark_primary image_id (clear_primary (i_agency_id img) imgs)"
  shows "filter (\<lambda>i. i_agency_id i = i_agency_id img \<and> i_is_primary i) res = [img\<lparr>i_is_primary := True\<rparr>]"
    and "filter (\<lambda>i. i_agency_id i \<noteq> i_agency_id img) res = filter (\<lambda>i. i_agency_id i \<noteq> i_agency_id img) imgs"
    and "map i_id res = map i_id imgs"
proof -
  from g have mem: "img \<in> set imgs" and key: "i_id img = image_id"
    using find_key_Some[of i_id image_id imgs img] by (simp_all add: get_image_def)
  have uniq: "\<And>y. y \<in> set imgs \<Longrightarrow> i_id y = image_id \<Longrightarrow> y = img"
    using d mem key by (metis distinct_map inj_on_eq_iff)
  let ?g = "\<lambda>i. if i_id i = image_id then i\<lparr>i_is_primary := True\<rparr>
                 else if i_agency_id i = i_agency_id img then i\<lparr>i_is_primary := False\<rparr> else i"
  have res: "res = map ?g imgs"
    unfolding res_def mark_primary_def clear_primary_def by (simp add: comp_def cong: if_cong) 
  have "filter (\<lambda>i. i_agency_id i = i_agency_id img \<and> i_is_primary i) res
        = map ?g (filter (\<lambda>y. i_id y = i_id img) imgs)"
    unfolding res filter_map comp_def
    by (rule arg_cong[where f="map ?g"], rule filter_cong) (auto simp: key dest: uniq)
  also have "\<dots> = [img\<lparr>i_is_primary := True\<rparr>]"
    using filter_key_single[OF d mem] key by simp
  finally show "filter (\<lambda>i. i_agency_id i = i_agency_id img \<and> i_is_primary i) res = [img\<lparr>i_is_primary := True\<rparr>]" .
  show "filter (\<lambda>i. i_agency_id i \<noteq> i_agency_id img) res = filter (\<lambda>i. i_agency_id i \<noteq> i_agency_id img) imgs"
  proof -
    have "filter (\<lambda>i. i_agency_id i \<noteq> i_agency_id img) res
          = map ?g (filter (\<lambda>i. i_agency_id i \<noteq> i_agency_id img) imgs)"
      unfolding res filter_map comp_def
      by (rule arg_cong[where f="map ?g"], rule filter_cong) auto
    also have "\<dots> = filter (\<lambda>i. i_agency_id i \<noteq> i_agency_id img) imgs"
      by (rule map_idI) (auto dest: uniq)
    finally show ?thesis .
  qed
  show "map i_id res = map i_id imgs" unfolding res by simp
qed


text \<open>
  C2. In a table whose primary keys are distinct, \<^verbatim>\<open>set_primary_agency_image\<close> on an
  existing image, when the commit succeeds, leaves exactly one row of the image's agency
  with \<^verbatim>\<open>is_primary\<close> set, the target itself, and leaves the rows of every other agency
  as they were.
\<close>

theorem set_primary_exactly_one:
  assumes "distinct (map i_id (agency_images s))"
    and "get_image (agency_images s) image_id = Some img"
  shows "fst (set_primary_agency_image True image_id s) = Flashed Success ''Imagen principal actualizada''
       \<and> filter (\<lambda>i. i_agency_id i = i_agency_id img \<and> i_is_primary i)
            (agency_images (snd (set_primary_agency_image True image_id s)))
          = [img\<lparr>i_is_primary := True\<rparr>]
       \<and> filter (\<lambda>i. i_agency_id i \<noteq> i_agency_id img)
            (agency_images (snd (set_primary_agency_image True image_id s)))
          = filter (\<lambda>i. i_agency_id i \<noteq> i_agency_id img) (agency_images s)"
  using set_primary_rows(1,2)[OF assms] assms(2)
  by (simp add: set_primary_agency_image_def)

theorem set_primary_exactly_one_witness:
  "distinct (map i_id (agency_images example_db))
   \<and> get_image (agency_images example_db) 2
       = Some \<lparr>i_id = 2, i_agency_id = 1, i_image_filename = ''b.png'', i_alt_text = [],
               i_is_primary = False, i_sort_order = 1\<rparr>
   \<and> map (\<lambda>i. (i_id i, i_is_primary i))
       (agency_images (snd (set_primary_agency_image True 2 example_db)))
     = [(1, False), (2, True), (3, True)]
   \<and> filter (\<lambda>i. i_agency_id i = 1 \<and> i_is_primary i)
       (agency_images (snd (set_primary_agency_image True 2 example_db)))
     = [\<lparr>i_id = 2, i_agency_id = 1, i_image_filename = ''b.png'', i_alt_text = [],
         i_is_primary = True, i_sort_order = 1\<rparr>]"
proof -
  let ?img = "\<lparr>i_id = 2, i_agency_id = 1, i_image_filename = ''b.png'', i_alt_text = [],
               i_is_primary = False, i_sort_order = 1\<rparr>"
  have d: "distinct (map i_id (agency_images example_db))"
    by (simp add: example_db_def)
  have g: "get_image (agency_images example_db) 2 = Some ?img"
    by (simp add: example_db_def get_image_def)
  have m: "map (\<lambda>i. (i_id i, i_is_primary i))
       (agency_images (snd (set_primary_agency_image True 2 example_db)))
     = [(1, False), (2, True), (3, True)]"
    by (simp add: example_db_def get_image_def set_primary_agency_image_def mark_primary_def clear_primary_def)
  show ?thesis using d g m set_primary_exactly_one[OF d g] by simp
qed

section \<open>Deleting a plan\<close>

text \<open>
  C3. For an existing plan: when some agency references it, \<^verbatim>\<open>delete_plan\<close> flashes
  \<^verbatim>\<open>plan_error_in_use\<close> and the state is unchanged, whether or not a commit would succeed;
  when no agency references it and the commit succeeds, the plan row is removed and nothing
  else changes.
\<close>

theorem delete_plan_guard:
  assumes "get_plan (plans s) plan_id = Some plan"
  shows "((\<exists>a \<in> set (agencies s). a_plan_id a = Some plan_id) \<longrightarrow>
            delete_plan commit_ok plan_id s = (Flashed Error ''plan_error_in_use'', s))
       \<and> (\<not> (\<exists>a \<in> set (agencies s). a_plan_id a = Some plan_id) \<longrightarrow>
            delete_plan True plan_id s
              = (Flashed Success ''plan_delete_success'',
                 s\<lparr>plans := filter (\<lambda>p. p_id p \<noteq> plan_id) (plans s)\<rparr>)
            \<and> get_plan (plans (snd (delete_plan True plan_id s))) plan_id = None)"
  using assms
  by (auto simp: delete_plan_def get_plan_def filter_empty_conv find_None_iff)

theorem delete_plan_guard_witness:
  "get_plan (plans example_db) 2 \<noteq> None
   \<and> (\<exists>a \<in> set (agencies example_db). a_plan_id a = Some 2)
   \<and> delete_plan True 2 example_db = (Flashed Error ''plan_error_in_use'', example_db)
   \<and> get_plan (plans example_db) 1 \<noteq> None
   \<and> \<not> (\<exists>a \<in> set (agencies example_db). a_plan_id a = Some 1)
   \<and> map p_id (plans (snd (delete_plan True 1 example_db))) = [2]
   \<and> agencies (snd (delete_plan True 1 example_db)) = agencies example_db"
proof -
  have g2: "get_plan (plans example_db) 2 = Some (plans example_db ! 1)"
    by (simp add: example_db_def get_plan_def)
  have g1: "get_plan (plans example_db) 1 = Some (plans example_db ! 0)"
    by (simp add: example_db_def get_plan_def)
  have r2: "\<exists>a \<in> set (agencies example_db). a_plan_id a = Some 2"
    by (simp add: example_db_def)
  have r1: "\<not> (\<exists>a \<in> set (agencies example_db). a_plan_id a = Some 1)"
    by (simp add: example_db_def)
  have p: "map p_id (filter (\<lambda>p. p_id p \<noteq> 1) (plans example_db)) = [2]"
    by (simp add: example_db_def)
  show ?thesis
    using g1 g2 r1 r2 p delete_plan_guard[OF g2, of True] delete_plan_guard[OF g1, of True]
    by simp
qed


section \<open>Sort order of a new agency\<close>

lemma or_0_sql_max: "or_0 (sql_max (map a_sort_order ags)) = max_existing ags"
proof (cases ags)
  case Nil
  then show ?thesis by (simp add: or_0_def sql_max_def max_existing_def)
next
  case (Cons a as)
  have "fold max (map a_sort_order as) (a_sort_order a) = Max (set (map a_sort_order (a # as)))"
    by (simp only: list.map Max.set_eq_fold)
  then show ?thesis using Cons by (simp add: or_0_def sql_max_def max_existing_def)
qed

lemma add_agency_success:
  assumes "fst (add_agency commit_ok form s) = Flashed Success ''agency_add_success''"
  shows "\<exists>new. snd (add_agency commit_ok form s) = s\<lparr>agencies := agencies s @ [new]\<rparr>
           \<and> a_sort_order new = max_existing (agencies s) + 1"
  using assms
  by (auto simp: add_agency_def Let_def or_0_sql_max split: if_splits)

lemma create_agencies_sort_order:
  "list_all (\<lambda>r. r = Flashed Success ''agency_add_success'') (fst (create_agencies reqs s)) \<Longrightarrow>
   \<exists>news. snd (create_agencies reqs s) = s\<lparr>agencies := agencies s @ news\<rparr>
      \<and> length news = length reqs
      \<and> (\<forall>k < length news.
            a_sort_order (news ! k) = max_existing (agencies s @ take k news) + 1)"
proof (induction reqs arbitrary: s)
  case Nil
  then show ?case by simp
next
  case (Cons req rest)
  obtain commit_ok form where req: "req = (commit_ok, form)" by (cases req)
  let ?s1 = "snd (add_agency commit_ok form s)"
  from Cons.prems req
  have ok1: "fst (add_agency commit_ok form s) = Flashed Success ''agency_add_success''"
    and okr: "list_all (\<lambda>r. r = Flashed Success ''agency_add_success'') (fst (create_agencies rest ?s1))"
    by (simp_all add: split_beta Let_def)
  from add_agency_success[OF ok1] obtain new where
    s1: "?s1 = s\<lparr>agencies := agencies s @ [new]\<rparr>"
    and so: "a_sort_order new = max_existing (agencies s) + 1" by blast
  from Cons.IH[OF okr] obtain news where
    r: "snd (create_agencies rest ?s1) = ?s1\<lparr>agencies := agencies ?s1 @ news\<rparr>"
    and len: "length news = length rest"
    and each: "\<forall>k < length news. a_sort_order (news ! k) = max_existing (agencies ?s1 @ take k news) + 1"
    by blast
  have "snd (create_agencies (req # rest) s) = s\<lparr>agencies := agencies s @ (new # news)\<rparr>"
    using r s1 req by (simp add: split_beta Let_def)
  moreover have "length (new # news) = length (req # rest)" using len by simp
  moreover have "\<forall>k < length (new # news).
      a_sort_order ((new # news) ! k) = max_existing (agencies s @ take k (new # news)) + 1"
  proof (intro allI impI)
    fix k assume "k < length (new # news)"
    then show "a_sort_order ((new # news) ! k) = max_existing (agencies s @ take k (new # news)) + 1"
      using so each s1 by (cases k) simp_all
  qed
  ultimately show ?case by blast
qed


lemma max_existing_ge: "a \<in> set ags \<Longrightarrow> a_sort_order a \<le> max_existing ags"
  by (auto simp: max_existing_def)

text \<open>
  C4. Whenever every request of a sequence of \<^verbatim>\<open>add_agency\<close> requests succeeds, the
  sequence appends one agency per request, and each new agency gets the largest
  \<^verbatim>\<open>sort_order\<close> of the agencies existing just before it plus 1, where 0 stands for that
  largest value when no agency exists (the first agency of an empty table gets 1). Hence
  every new agency lies above all agencies that existed before, and the new agencies'
  \<^verbatim>\<open>sort_order\<close> strictly increases in creation order.
\<close>

theorem add_agency_sort_order:
  assumes "list_all (\<lambda>r. r = Flashed Success ''agency_add_success'') (fst (create_agencies reqs s))"
  shows "\<exists>news. agencies (snd (create_agencies reqs s)) = agencies s @ news
           \<and> length news = length reqs
           \<and> (\<forall>k < length news.
                 a_sort_order (news ! k) = max_existing (agencies s @ take k news) + 1)
           \<and> (\<forall>a \<in> set (agencies s). \<forall>n \<in> set news. a_sort_order a < a_sort_order n)
           \<and> sorted_wrt (<) (map a_sort_order news)"
proof -
  from create_agencies_sort_order[OF assms] obtain news where
    r: "snd (create_agencies reqs s) = s\<lparr>agencies := agencies s @ news\<rparr>"
    and len: "length news = length reqs"
    and each: "\<forall>k < length news. a_sort_order (news ! k) = max_existing (agencies s @ take k news) + 1"
    by blast
  have above: "a_sort_order a < a_sort_order (news ! k)"
    if "k < length news" "a \<in> set (agencies s @ take k news)" for a k
    using each that max_existing_ge[of a "agencies s @ take k news"] by simp
  have old: "\<forall>a \<in> set (agencies s). \<forall>n \<in> set news. a_sort_order a < a_sort_order n"
  proof (intro ballI)
    fix a n assume a: "a \<in> set (agencies s)" and "n \<in> set news"
    then obtain k where "k < length news" "n = news ! k" by (auto simp: in_set_conv_nth)
    with a above[of k a] show "a_sort_order a < a_sort_order n" by simp
  qed
  have "a_sort_order (news ! i) < a_sort_order (news ! j)" if "i < j" "j < length news" for i j
  proof -
    have "news ! i \<in> set (take j news)"
      using that by (auto simp: in_set_conv_nth intro!: exI[of _ i])
    then show ?thesis using above[of j "news ! i"] that by simp
  qed
  then have "sorted_wrt (<) (map a_sort_order news)"
    by (simp add: sorted_wrt_iff_nth_less)
  with r len each old show ?thesis by auto
qed

theorem add_agency_sort_order_witness:
  "list_all (\<lambda>r. r = Flashed Success ''agency_add_success'')
     (fst (create_agencies [(True, example_form), (True, example_form)] example_db))
   \<and> (\<exists>news. agencies (snd (create_agencies [(True, example_form), (True, example_form)] example_db))
               = agencies example_db @ news
        \<and> sorted_wrt (<) (map a_sort_order news))
   \<and> map a_sort_order
       (agencies (snd (create_agencies [(True, example_form), (True, example_form)] example_db)))
     = [1, 2, 3, 4]
   \<and> map a_sort_order (agencies (snd (create_agencies [(True, example_form)] empty_db))) = [1]"
proof -
  have ok: "list_all (\<lambda>r. r = Flashed Success ''agency_add_success'')
     (fst (create_agencies [(True, example_form), (True, example_form)] example_db))"
    by (simp add: add_agency_def example_form_def strip_def py_isspace_def Let_def)
  have v: "map a_sort_order
       (agencies (snd (create_agencies [(True, example_form), (True, example_form)] example_db)))
     = [1, 2, 3, 4]"
    by (simp add: add_agency_def example_form_def strip_def py_isspace_def Let_def
        example_db_def or_0_def sql_max_def)
  have e: "map a_sort_order (agencies (snd (create_agencies [(True, example_form)] empty_db))) = [1]"
    by (simp add: add_agency_def example_form_def strip_def py_isspace_def Let_def
        empty_db_def or_0_def sql_max_def)
  from add_agency_sort_order[OF ok] have "\<exists>news. agencies (snd (create_agencies [(True, example_form), (True, example_form)] example_db))
               = agencies example_db @ news
        \<and> sorted_wrt (<) (map a_sort_order news)" by blast
  with ok v e show ?thesis by blast
qed

section \<open>Reordering\<close>

lemma new_order_absent: "k \<notin> set ids \<Longrightarrow> new_order index ids k old = old"
  by (induction ids arbitrary: index old) auto

lemma new_order_last:
  "i < length ids \<Longrightarrow> ids ! i = k \<Longrightarrow> k \<notin> set (drop (Suc i) ids) \<Longrightarrow>
   new_order index ids k old = int (index + i)"
proof (induction ids arbitrary: index old i)
  case Nil
  then show ?case by simp
next
  case (Cons x xs)
  show ?case
  proof (cases i)
    case 0
    with Cons.prems show ?thesis by (simp add: new_order_absent)
  next
    case (Suc j)
    with Cons.prems have "new_order (index + 1) xs k (if x = k then int index else old) = int (index + 1 + j)"
      by (intro Cons.IH) simp_all
    with Suc show ?thesis by simp
  qed
qed

lemma find_map_key:
  "(\<And>r. key (f r) = key r) \<Longrightarrow>
   find (\<lambda>r. key r = k) (map f xs) = map_option f (find (\<lambda>r. key r = k) xs)"
  by (induction xs) auto

lemma get_put_agency:
  assumes "get_agency ags x = Some a"
  shows "get_agency (put_agency (a\<lparr>a_sort_order := v\<rparr>) ags) k
         = (if k = x then Some (a\<lparr>a_sort_order := v\<rparr>) else get_agency ags k)"
proof -
  from assms have ax: "a_id a = x" by (auto simp: get_agency_def find_Some_iff)
  let ?f = "\<lambda>r. if a_id r = x then a\<lparr>a_sort_order := v\<rparr> else r"
  have "get_agency (put_agency (a\<lparr>a_sort_order := v\<rparr>) ags) k = map_option ?f (get_agency ags k)"
  proof -
    have "put_agency (a\<lparr>a_sort_order := v\<rparr>) ags = map ?f ags"
      using ax by (simp add: put_agency_def)
    moreover have "find (\<lambda>r. a_id r = k) (map ?f ags) = map_option ?f (find (\<lambda>r. a_id r = k) ags)"
      by (rule find_map_key) (simp add: ax)
    ultimately show ?thesis by (simp add: get_agency_def)
  qed
  also have "\<dots> = (if k = x then Some (a\<lparr>a_sort_order := v\<rparr>) else get_agency ags k)"
  proof (cases "get_agency ags k")
    case None
    with assms show ?thesis by auto
  next
    case (Some r)
    then have "a_id r = k" by (auto simp: get_agency_def find_Some_iff)
    with Some show ?thesis by auto
  qed
  finally show ?thesis .
qed

lemma reorder_agencies_loop_raises:
  "\<not> list_all storable ids \<Longrightarrow> reorder_agencies_loop index ids ags = None"
  by (induction ids arbitrary: index ags) auto

lemma reorder_agencies_loop_returns:
  "list_all storable ids \<Longrightarrow> \<exists>ags'. reorder_agencies_loop index ids ags = Some ags'"
  by (induction ids arbitrary: index ags) auto

lemma reorder_agencies_loop_get:
  "reorder_agencies_loop index ids ags = Some ags' \<Longrightarrow>
   get_agency ags' k
   = map_option (\<lambda>a. a\<lparr>a_sort_order := new_order index ids k (a_sort_order a)\<rparr>) (get_agency ags k)"
proof (induction ids arbitrary: index ags)
  case Nil
  then show ?case by (cases "get_agency ags k") simp_all
next
  case (Cons x xs)
  show ?case
  proof (cases "get_agency ags x")
    case None
    then have "x \<noteq> k \<or> get_agency ags k = None" by auto
    moreover from Cons.prems None have "reorder_agencies_loop (index + 1) xs ags = Some ags'"
      by (simp split: if_splits)
    ultimately show ?thesis using Cons.IH[of "index + 1" ags] by auto
  next
    case (Some a)
    with Cons.prems
    have "reorder_agencies_loop (index + 1) xs (put_agency (a\<lparr>a_sort_order := int index\<rparr>) ags) = Some ags'"
      by (simp split: if_splits)
    from Cons.IH[OF this] Some show ?thesis
      by (cases "get_agency ags k") (auto simp: get_put_agency[OF Some])
  qed
qed

lemma reorder_agencies_loop_ids:
  "reorder_agencies_loop index ids ags = Some ags' \<Longrightarrow> map a_id ags' = map a_id ags"
proof (induction ids arbitrary: index ags)
  case Nil
  then show ?case by simp
next
  case (Cons x xs)
  have put: "map a_id (put_agency b ags) = map a_id ags" for b
    by (simp add: put_agency_def)
  from Cons.prems show ?case
    by (cases "get_agency ags x") (auto simp: put split: if_splits dest!: Cons.IH)
qed

lemma get_put_item:
  assumes "get_item items x = Some a"
  shows "get_item (put_item (a\<lparr>c_sort_order := v\<rparr>) items) k
         = (if k = x then Some (a\<lparr>c_sort_order := v\<rparr>) else get_item items k)"
proof -
  from assms have ax: "c_id a = x" by (auto simp: get_item_def find_Some_iff)
  let ?f = "\<lambda>r. if c_id r = x then a\<lparr>c_sort_order := v\<rparr> else r"
  have "get_item (put_item (a\<lparr>c_sort_order := v\<rparr>) items) k = map_option ?f (get_item items k)"
  proof -
    have "put_item (a\<lparr>c_sort_order := v\<rparr>) items = map ?f items"
      using ax by (simp add: put_item_def)
    moreover have "find (\<lambda>r. c_id r = k) (map ?f items) = map_option ?f (find (\<lambda>r. c_id r = k) items)"
      by (rule find_map_key) (simp add: ax)
    ultimately show ?thesis by (simp add: get_item_def)
  qed
  also have "\<dots> = (if k = x then Some (a\<lparr>c_sort_order := v\<rparr>) else get_item items k)"
  proof (cases "get_item items k")
    case None
    with assms show ?thesis by auto
  next
    case (Some r)
    then have "c_id r = k" by (auto simp: get_item_def find_Some_iff)
    with Some show ?thesis by auto
  qed
  finally show ?thesis .
qed

lemma reorder_carousel_loop_raises:
  "\<not> list_all storable ids \<Longrightarrow> reorder_carousel_loop index ids items = None"
  by (induction ids arbitrary: index items) auto

lemma reorder_carousel_loop_returns:
  "list_all storable ids \<Longrightarrow> \<exists>items'. reorder_carousel_loop index ids items = Some items'"
  by (induction ids arbitrary: index items) auto

lemma reorder_carousel_loop_get:
  "reorder_carousel_loop index ids items = Some items' \<Longrightarrow>
   get_item items' k
   = map_option (\<lambda>a. a\<lparr>c_sort_order := new_order index ids k (c_sort_order a)\<rparr>) (get_item items k)"
proof (induction ids arbitrary: index items)
  case Nil
  then show ?case by (cases "get_item items k") simp_all
next
  case (Cons x xs)
  show ?case
  proof (cases "get_item items x")
    case None
    then have "x \<noteq> k \<or> get_item items k = None" by auto
    moreover from Cons.prems None have "reorder_carousel_loop (index + 1) xs items = Some items'"
      by (simp split: if_splits)
    ultimately show ?thesis using Cons.IH[of "index + 1" items] by auto
  next
    case (Some a)
    with Cons.prems
    have "reorder_carousel_loop (index + 1) xs (put_item (a\<lparr>c_sort_order := int index\<rparr>) items) = Some items'"
      by (simp split: if_splits)
    from Cons.IH[OF this] Some show ?thesis
      by (cases "get_item items k") (auto simp: get_put_item[OF Some])
  qed
qed

lemma reorder_carousel_loop_ids:
  "reorder_carousel_loop index ids items = Some items' \<Longrightarrow> map c_id items' = map c_id items"
proof (induction ids arbitrary: index items)
  case Nil
  then show ?case by simp
next
  case (Cons x xs)
  have put: "map c_id (put_item b items) = map c_id items" for b
    by (simp add: put_item_def)
  from Cons.prems show ?case
    by (cases "get_item items x") (auto simp: put split: if_splits dest!: Cons.IH)
qed

text \<open>
  The list \<^verbatim>\<open>[1, 9223372036854775808]\<close> on the sample state: agency 1 exists and is
  listed at index 0, the second id is above the store's range. The request answers the
  error status and agency 1 keeps its \<^verbatim>\<open>sort_order\<close> 1.
\<close>

theorem reorder_out_of_range_counterexample:
  "map_option a_sort_order (get_agency (agencies example_db) 1) = Some 1
   \<and> fst (reorder_agencies True [1, 9223372036854775808] example_db) = Json_error
   \<and> map_option a_sort_order
        (get_agency (agencies (snd (reorder_agencies True [1, 9223372036854775808] example_db))) 1)
       = Some 1"
  by (simp add: reorder_agencies_def storable_def example_db_def get_agency_def)

text \<open>
  C5, as the code has it. \<^verbatim>\<open>reorder_agencies\<close> and \<^verbatim>\<open>reorder_carousel\<close> with a
  successful commit, for every id list whose ids are all in the store's integer range: the
  answer is the success status and the table keeps its rows' keys (ids that match no row
  are skipped); a listed id that exists gets \<^verbatim>\<open>sort_order\<close> equal to the index of its
  occurrence in the list, the last one when it is repeated, and nothing else of its row
  changes; a row whose id is not listed is unchanged. When some id of the list is outside
  that range, the answer is the error status and the state is unchanged.
\<close>

theorem reorder_assigns_index:
  "(list_all storable ids \<longrightarrow>
     fst (reorder_agencies True ids s) = Json_success
     \<and> map a_id (agencies (snd (reorder_agencies True ids s))) = map a_id (agencies s)
     \<and> (\<forall>i a. i < length ids \<and> ids ! i \<notin> set (drop (Suc i) ids)
                \<and> get_agency (agencies s) (ids ! i) = Some a
           \<longrightarrow> get_agency (agencies (snd (reorder_agencies True ids s))) (ids ! i)
                 = Some (a\<lparr>a_sort_order := int i\<rparr>))
     \<and> (\<forall>k. k \<notin> set ids
           \<longrightarrow> get_agency (agencies (snd (reorder_agencies True ids s))) k = get_agency (agencies s) k)
     \<and> fst (reorder_carousel True ids s) = Json_success
     \<and> map c_id (carousel_items (snd (reorder_carousel True ids s))) = map c_id (carousel_items s)
     \<and> (\<forall>i c. i < length ids \<and> ids ! i \<notin> set (drop (Suc i) ids)
                \<and> get_item (carousel_items s) (ids ! i) = Some c
           \<longrightarrow> get_item (carousel_items (snd (reorder_carousel True ids s))) (ids ! i)
                 = Some (c\<lparr>c_sort_order := int i\<rparr>))
     \<and> (\<forall>k. k \<notin> set ids
           \<longrightarrow> get_item (carousel_items (snd (reorder_carousel True ids s))) k
               = get_item (carousel_items s) k))
   \<and> (\<not> list_all storable ids \<longrightarrow>
         reorder_agencies commit_ok ids s = (Json_error, s)
         \<and> reorder_carousel commit_ok ids s = (Json_error, s))"
proof (intro conjI impI)
  assume "\<not> list_all storable ids"
  then show "reorder_agencies commit_ok ids s = (Json_error, s)"
    and "reorder_carousel commit_ok ids s = (Json_error, s)"
    by (simp_all add: reorder_agencies_def reorder_carousel_def reorder_agencies_loop_raises
        reorder_carousel_loop_raises)
next
  assume st: "list_all storable ids"
  from reorder_agencies_loop_returns[OF st] obtain ags' where
    la: "reorder_agencies_loop 0 ids (agencies s) = Some ags'" by blast
  from reorder_carousel_loop_returns[OF st] obtain items' where
    lc: "reorder_carousel_loop 0 ids (carousel_items s) = Some items'" by blast
  have ra: "reorder_agencies True ids s = (Json_success, s\<lparr>agencies := ags'\<rparr>)"
    by (simp add: reorder_agencies_def la)
  have rc: "reorder_carousel True ids s = (Json_success, s\<lparr>carousel_items := items'\<rparr>)"
    by (simp add: reorder_carousel_def lc)
  show "fst (reorder_agencies True ids s) = Json_success" by (simp add: ra)
  show "fst (reorder_carousel True ids s) = Json_success" by (simp add: rc)
  show "map a_id (agencies (snd (reorder_agencies True ids s))) = map a_id (agencies s)"
    using reorder_agencies_loop_ids[OF la] by (simp add: ra)
  show "map c_id (carousel_items (snd (reorder_carousel True ids s))) = map c_id (carousel_items s)"
    using reorder_carousel_loop_ids[OF lc] by (simp add: rc)
  show "\<forall>i a. i < length ids \<and> ids ! i \<notin> set (drop (Suc i) ids)
                \<and> get_agency (agencies s) (ids ! i) = Some a
           \<longrightarrow> get_agency (agencies (snd (reorder_agencies True ids s))) (ids ! i)
                 = Some (a\<lparr>a_sort_order := int i\<rparr>)"
    using reorder_agencies_loop_get[OF la] new_order_last[of _ ids _ 0]
    by (simp add: ra)
  show "\<forall>k. k \<notin> set ids
           \<longrightarrow> get_agency (agencies (snd (reorder_agencies True ids s))) k = get_agency (agencies s) k"
  proof (intro allI impI)
    fix k assume "k \<notin> set ids"
    then show "get_agency (agencies (snd (reorder_agencies True ids s))) k = get_agency (agencies s) k"
      using reorder_agencies_loop_get[OF la, of k]
      by (cases "get_agency (agencies s) k") (simp_all add: ra new_order_absent)
  qed
  show "\<forall>i c. i < length ids \<and> ids ! i \<notin> set (drop (Suc i) ids)
                \<and> get_item (carousel_items s) (ids ! i) = Some c
           \<longrightarrow> get_item (carousel_items (snd (reorder_carousel True ids s))) (ids ! i)
                 = Some (c\<lparr>c_sort_order := int i\<rparr>)"
    using reorder_carousel_loop_get[OF lc] new_order_last[of _ ids _ 0]
    by (simp add: rc)
  show "\<forall>k. k \<notin> set ids
           \<longrightarrow> get_item (carousel_items (snd (reorder_carousel True ids s))) k
               = get_item (carousel_items s) k"
  proof (intro allI impI)
    fix k assume "k \<notin> set ids"
    then show "get_item (carousel_items (snd (reorder_carousel True ids s))) k
               = get_item (carousel_items s) k"
      using reorder_carousel_loop_get[OF lc, of k]
      by (cases "get_item (carousel_items s) k") (simp_all add: rc new_order_absent)
  qed
qed

theorem reorder_assigns_index_witness:
  "list_all storable [2, 9, 1]
   \<and> (0::nat) < length [2, 9, 1 :: int] \<and> [2, 9, 1 :: int] ! 0 \<notin> set (drop (Suc 0) [2, 9, 1])
   \<and> get_agency (agencies example_db) 2 = Some (agencies example_db ! 1)
   \<and> get_agency (agencies (snd (reorder_agencies True [2, 9, 1] example_db))) 2
       = Some ((agencies example_db ! 1)\<lparr>a_sort_order := 0\<rparr>)
   \<and> map (\<lambda>a. (a_id a, a_sort_order a)) (agencies (snd (reorder_agencies True [2, 9, 1] example_db)))
       = [(1, 2), (2, 0)]
   \<and> (3::int) \<notin> set [2, 9, 1]
   \<and> get_item (carousel_items (snd (reorder_carousel True [2, 9, 1] example_db))) 3
       = get_item (carousel_items example_db) 3
   \<and> map (\<lambda>c. (c_id c, c_sort_order c))
        (carousel_items (snd (reorder_carousel True [2, 9, 1] example_db)))
       = [(1, 2), (2, 0), (3, 2)]
   \<and> \<not> list_all storable [3, - 9223372036854775809]
   \<and> reorder_carousel True [3, - 9223372036854775809] example_db = (Json_error, example_db)"
proof -
  have st: "list_all storable [2, 9, 1]" by (simp add: storable_def)
  have ns: "\<not> list_all storable [3, - 9223372036854775809]" by (simp add: storable_def)
  note t = reorder_assigns_index[of "[2, 9, 1]" example_db True]
  have g: "get_agency (agencies example_db) 2 = Some (agencies example_db ! 1)"
    by (simp add: example_db_def get_agency_def)
  from t st have "\<forall>i a. i < length [2, 9, 1 :: int] \<and> [2, 9, 1 :: int] ! i \<notin> set (drop (Suc i) [2, 9, 1])
              \<and> get_agency (agencies example_db) ([2, 9, 1] ! i) = Some a
         \<longrightarrow> get_agency (agencies (snd (reorder_agencies True [2, 9, 1] example_db))) ([2, 9, 1] ! i)
               = Some (a\<lparr>a_sort_order := int i\<rparr>)" by blast
  from this[rule_format, of 0 "agencies example_db ! 1"] g
  have a: "get_agency (agencies (snd (reorder_agencies True [2, 9, 1] example_db))) 2
       = Some ((agencies example_db ! 1)\<lparr>a_sort_order := 0\<rparr>)" by simp
  from t st have "\<forall>k. k \<notin> set [2, 9, 1]
         \<longrightarrow> get_item (carousel_items (snd (reorder_carousel True [2, 9, 1] example_db))) k
             = get_item (carousel_items example_db) k" by blast
  from this[rule_format, of 3]
  have c: "get_item (carousel_items (snd (reorder_carousel True [2, 9, 1] example_db))) 3
       = get_item (carousel_items example_db) 3" by simp
  have va: "map (\<lambda>a. (a_id a, a_sort_order a)) (agencies (snd (reorder_agencies True [2, 9, 1] example_db)))
       = [(1, 2), (2, 0)]"
    by (simp add: reorder_agencies_def storable_def example_db_def get_agency_def put_agency_def)
  have vc: "map (\<lambda>c. (c_id c, c_sort_order c))
        (carousel_items (snd (reorder_carousel True [2, 9, 1] example_db)))
       = [(1, 2), (2, 0), (3, 2)]"
    by (simp add: reorder_carousel_def storable_def example_db_def get_item_def put_item_def)
  from reorder_assigns_index[of "[3, - 9223372036854775809]" example_db True] ns
  have e: "reorder_carousel True [3, - 9223372036854775809] example_db = (Json_error, example_db)"
    by blast
  show ?thesis using st ns g a c va vc e by simp
qed

section \<open>Website normalisation\<close>

lemma get_put_agency_row:
  assumes "get_agency ags x = Some a" and bx: "a_id b = x"
  shows "get_agency (put_agency b ags) x = Some b"
proof -
  let ?f = "\<lambda>r. if a_id r = x then b else r"
  have "put_agency b ags = map ?f ags"
    using bx by (simp add: put_agency_def)
  moreover have "find (\<lambda>r. a_id r = x) (map ?f ags) = map_option ?f (find (\<lambda>r. a_id r = x) ags)"
    by (rule find_map_key) (simp add: bx)
  moreover from assms have "a_id a = x" by (auto simp: get_agency_def find_Some_iff)
  ultimately show ?thesis using assms by (simp add: get_agency_def)
qed

text \<open>
  The website \<^verbatim>\<open>ftp://example.com\<close> carries a scheme, and \<^verbatim>\<open>add_agency\<close> still stores it
  with \<^verbatim>\<open>https://\<close> in front.
\<close>

theorem website_scheme_counterexample:
  "carries_scheme ''ftp://example.com''
   \<and> fst (add_agency True (example_form\<lparr>f_website := ''ftp://example.com''\<rparr>) empty_db)
       = Flashed Success ''agency_add_success''
   \<and> map a_website (agencies (snd (add_agency True (example_form\<lparr>f_website := ''ftp://example.com''\<rparr>) empty_db)))
       = [''https://ftp://example.com'']"
  by (simp add: carries_scheme_def scheme_char_def startswith_def add_agency_def example_form_def
      empty_db_def strip_def py_isspace_def ensure_protocol_def Let_def)

text \<open>
  C6, as the code has it. A successful \<^verbatim>\<open>add_agency\<close> stores in the new row, and a
  successful \<^verbatim>\<open>edit_agency\<close> stores in the edited row, the stripped website unchanged when
  it starts with the text \<^verbatim>\<open>http://\<close> or \<^verbatim>\<open>https://\<close>, and with \<^verbatim>\<open>https://\<close> put in
  front otherwise. At the two inputs of the spec: \<^verbatim>\<open>example.com\<close> is stored
  as \<^verbatim>\<open>https://example.com\<close>, and \<^verbatim>\<open>http://example.com\<close> is stored unchanged.
\<close>

theorem website_prefix_rule:
  "(fst (add_agency commit_ok form s) = Flashed Success ''agency_add_success'' \<longrightarrow>
      a_website (last (agencies (snd (add_agency commit_ok form s))))
        = (if startswith (strip (f_website form)) ''http://''
              \<or> startswith (strip (f_website form)) ''https://''
           then strip (f_website form) else ''https://'' @ strip (f_website form)))
   \<and> (fst (edit_agency commit_ok agency_id form s) = Flashed Success ''agency_edit_success'' \<longrightarrow>
      map_option a_website (get_agency (agencies (snd (edit_agency commit_ok agency_id form s))) agency_id)
        = Some (if startswith (strip (f_website form)) ''http://''
                   \<or> startswith (strip (f_website form)) ''https://''
                then strip (f_website form) else ''https://'' @ strip (f_website form)))"
proof (intro conjI impI)
  assume "fst (add_agency commit_ok form s) = Flashed Success ''agency_add_success''"
  then show "a_website (last (agencies (snd (add_agency commit_ok form s))))
        = (if startswith (strip (f_website form)) ''http://''
              \<or> startswith (strip (f_website form)) ''https://''
           then strip (f_website form) else ''https://'' @ strip (f_website form))"
    by (auto simp: add_agency_def Let_def ensure_protocol_def split: if_splits)
next
  assume ok: "fst (edit_agency commit_ok agency_id form s) = Flashed Success ''agency_edit_success''"
  then obtain found where f: "get_agency (agencies s) agency_id = Some found"
    by (cases "get_agency (agencies s) agency_id") (auto simp: edit_agency_def)
  then have fid: "a_id found = agency_id" by (auto simp: get_agency_def find_Some_iff)
  from ok f obtain b where
    s': "agencies (snd (edit_agency commit_ok agency_id form s)) = put_agency b (agencies s)"
    and bid: "a_id b = agency_id"
    and bw: "a_website b = ensure_protocol (strip (f_website form))"
    by (auto simp: edit_agency_def Let_def fid split: if_splits option.splits)
  show "map_option a_website (get_agency (agencies (snd (edit_agency commit_ok agency_id form s))) agency_id)
        = Some (if startswith (strip (f_website form)) ''http://''
                   \<or> startswith (strip (f_website form)) ''https://''
                then strip (f_website form) else ''https://'' @ strip (f_website form))"
    using get_put_agency_row[OF f bid] s' bw by (simp add: ensure_protocol_def)
qed

theorem website_prefix_rule_witness:
  "fst (add_agency True example_form example_db) = Flashed Success ''agency_add_success''
   \<and> f_website example_form = ''example.com''
   \<and> a_website (last (agencies (snd (add_agency True example_form example_db))))
       = ''https://example.com''
   \<and> fst (edit_agency True 1 (example_form\<lparr>f_website := ''http://example.com''\<rparr>) example_db)
       = Flashed Success ''agency_edit_success''
   \<and> map_option a_website
        (get_agency (agencies (snd (edit_agency True 1 (example_form\<lparr>f_website := ''http://example.com''\<rparr>) example_db))) 1)
       = Some ''http://example.com''"
proof -
  have a: "fst (add_agency True example_form example_db) = Flashed Success ''agency_add_success''"
    by (simp add: add_agency_def example_form_def strip_def py_isspace_def Let_def)
  have e: "fst (edit_agency True 1 (example_form\<lparr>f_website := ''http://example.com''\<rparr>) example_db)
       = Flashed Success ''agency_edit_success''"
    by (simp add: edit_agency_def example_form_def example_db_def get_agency_def strip_def
        py_isspace_def Let_def)
  have w1: "strip (f_website example_form) = ''example.com''"
    by (simp add: example_form_def strip_def py_isspace_def)
  have w2: "strip (f_website (example_form\<lparr>f_website := ''http://example.com''\<rparr>)) = ''http://example.com''"
    by (simp add: strip_def py_isspace_def)
  from website_prefix_rule[of True example_form example_db] a w1
  have r1: "a_website (last (agencies (snd (add_agency True example_form example_db))))
       = ''https://example.com''"
    by (simp add: startswith_def)
  from website_prefix_rule[of True "example_form\<lparr>f_website := ''http://example.com''\<rparr>" example_db 1] e w2
  have r2: "map_option a_website
        (get_agency (agencies (snd (edit_agency True 1 (example_form\<lparr>f_website := ''http://example.com''\<rparr>) example_db))) 1)
       = Some ''http://example.com''"
    by (simp add: startswith_def)
  show ?thesis using a e r1 r2 by (simp add: example_form_def)
qed

section \<open>Creating a plan\<close>

text \<open>
  \<^verbatim>\<open>add_plan\<close> with the price \<open>-5\<close> on the empty state succeeds and stores a plan whose
  price is negative.
\<close>

theorem negative_price_counterexample:
  "fst (add_plan True ''Basic'' (Some (- 5)) ''monthly'' [] empty_db)
     = Flashed Success ''plan_add_success''
   \<and> map p_price (plans (snd (add_plan True ''Basic'' (Some (- 5)) ''monthly'' [] empty_db))) = [- 5]
   \<and> (- 5 :: real) < 0"
  by (simp add: add_plan_def empty_db_def strip_def py_isspace_def Let_def)

text \<open>
  C7, as the code has it. \<^verbatim>\<open>add_plan\<close> with a missing price flashes
  \<^verbatim>\<open>plan_error_required\<close> and leaves the state unchanged. A supplied price is not examined:
  with a non-empty name that no plan has and a successful commit, the plan is stored with
  the price as given, whatever its sign.
\<close>

theorem add_plan_price_check:
  "add_plan commit_ok name_field None billing_period description_field s
     = (Flashed Error ''plan_error_required'', s)
   \<and> (strip name_field \<noteq> [] \<and> find (\<lambda>p. p_name p = strip name_field) (plans s) = None \<longrightarrow>
        fst (add_plan True name_field (Some pr) billing_period description_field s)
          = Flashed Success ''plan_add_success''
        \<and> map p_price (plans (snd (add_plan True name_field (Some pr) billing_period description_field s)))
          = map p_price (plans s) @ [pr])"
  by (simp add: add_plan_def Let_def)

theorem add_plan_price_check_witness:
  "strip ''Gold '' \<noteq> [] \<and> find (\<lambda>p. p_name p = strip ''Gold '') (plans example_db) = None
   \<and> fst (add_plan True ''Gold '' (Some (- 1)) ''yearly'' [] example_db)
       = Flashed Success ''plan_add_success''
   \<and> map p_price (plans (snd (add_plan True ''Gold '' (Some (- 1)) ''yearly'' [] example_db)))
       = [9, 19, - 1]
   \<and> add_plan True ''Gold '' None ''yearly'' [] example_db
       = (Flashed Error ''plan_error_required'', example_db)"
proof -
  have n: "strip ''Gold '' = ''Gold''" by (simp add: strip_def py_isspace_def)
  have f: "find (\<lambda>p. p_name p = strip ''Gold '') (plans example_db) = None"
    by (simp add: n example_db_def)
  have p: "map p_price (plans example_db) = [9, 19]" by (simp add: example_db_def)
  show ?thesis
    using n f p add_plan_price_check[of True "''Gold ''" "''yearly''" "[]" example_db "- 1"]
    by simp
qed

section \<open>Adding carousel items\<close>

lemma add_carousel_item_success:
  assumes "fst (add_carousel_item commit_ok image_file link_url alt_text s) = added_ok"
  shows "\<exists>item. snd (add_carousel_item commit_ok image_file link_url alt_text s)
                  = s\<lparr>carousel_items := carousel_items s @ [item]\<rparr>
           \<and> c_sort_order item = int (length (carousel_items s))"
  using assms
  by (auto simp: add_carousel_item_def added_ok_def Let_def split: if_splits option.splits)

lemma add_carousel_items_sort_order:
  "list_all (\<lambda>r. r = added_ok) (fst (add_carousel_items reqs s)) \<Longrightarrow>
   \<exists>news. snd (add_carousel_items reqs s) = s\<lparr>carousel_items := carousel_items s @ news\<rparr>
      \<and> map c_sort_order news
          = map int [length (carousel_items s) ..< length (carousel_items s) + length reqs]"
proof (induction reqs arbitrary: s)
  case Nil
  then show ?case by simp
next
  case (Cons req rest)
  obtain commit_ok image_file link_url alt_text
    where req: "req = (commit_ok, image_file, link_url, alt_text)" by (cases req)
  let ?s1 = "snd (add_carousel_item commit_ok image_file link_url alt_text s)"
  from Cons.prems req
  have ok1: "fst (add_carousel_item commit_ok image_file link_url alt_text s) = added_ok"
    and okr: "list_all (\<lambda>r. r = added_ok) (fst (add_carousel_items rest ?s1))"
    by (simp_all add: split_beta Let_def)
  from add_carousel_item_success[OF ok1] obtain item where
    s1: "?s1 = s\<lparr>carousel_items := carousel_items s @ [item]\<rparr>"
    and so: "c_sort_order item = int (length (carousel_items s))" by blast
  from Cons.IH[OF okr] obtain news where
    r: "snd (add_carousel_items rest ?s1) = ?s1\<lparr>carousel_items := carousel_items ?s1 @ news\<rparr>"
    and each: "map c_sort_order news
          = map int [length (carousel_items ?s1) ..< length (carousel_items ?s1) + length rest]"
    by blast
  have "snd (add_carousel_items (req # rest) s) = s\<lparr>carousel_items := carousel_items s @ (item # news)\<rparr>"
    using r s1 req by (simp add: split_beta Let_def)
  moreover have "map c_sort_order (item # news)
      = map int [length (carousel_items s) ..< length (carousel_items s) + length (req # rest)]"
  proof -
    let ?n = "length (carousel_items s)"
    have "[?n ..< ?n + length (req # rest)] = ?n # [Suc ?n ..< ?n + length (req # rest)]"
      by (rule upt_conv_Cons) simp
    moreover have "map c_sort_order news = map int [Suc ?n ..< ?n + length (req # rest)]"
      using each s1 by simp
    ultimately show ?thesis using so by simp
  qed
  ultimately show ?case by blast
qed

lemma insort_by_append:
  "(\<forall>y \<in> set ys. le x y) \<Longrightarrow> insort_by le x (A @ ys) = insort_by le x A @ ys"
proof (induction A)
  case Nil
  then show ?case by (cases ys) simp_all
next
  case (Cons a A)
  then show ?case by simp
qed

lemma foldr_insort_by_append:
  "(\<forall>x \<in> set xs. \<forall>y \<in> set ys. le x y) \<Longrightarrow>
   foldr (insort_by le) xs ys = foldr (insort_by le) xs [] @ ys"
proof (induction xs)
  case Nil
  show ?case by simp
next
  case (Cons x xs)
  then have "foldr (insort_by le) xs ys = foldr (insort_by le) xs [] @ ys" by simp
  moreover from Cons.prems have "\<forall>y \<in> set ys. le x y" by simp
  ultimately show ?case by (simp add: insort_by_append)
qed

lemma order_by_sorted: "sorted_wrt le ys \<Longrightarrow> order_by le ys = ys"
proof (induction ys)
  case Nil
  show ?case by (simp add: order_by_def)
next
  case (Cons y ys)
  then have "order_by le ys = ys" and "\<forall>z \<in> set ys. le y z" by simp_all
  then show ?case by (cases ys) (simp_all add: order_by_def)
qed

lemma order_by_append:
  assumes "sorted_wrt le ys" and "\<forall>x \<in> set xs. \<forall>y \<in> set ys. le x y"
  shows "order_by le (xs @ ys) = order_by le xs @ ys"
proof -
  have "order_by le (xs @ ys) = foldr (insort_by le) xs (order_by le ys)"
    by (simp add: order_by_def)
  also have "\<dots> = foldr (insort_by le) xs ys" using assms(1) by (simp add: order_by_sorted)
  also have "\<dots> = order_by le xs @ ys"
    using foldr_insort_by_append[OF assms(2)] by (simp add: order_by_def)
  finally show ?thesis .
qed

text \<open>
  Three items are added to the empty state and the first two are deleted: the remaining
  item has \<^verbatim>\<open>sort_order\<close> 2. A further successful \<^verbatim>\<open>add_carousel_item\<close> counts one item
  and gives the new one \<^verbatim>\<open>sort_order\<close> 1, so the new item is shown first, before the older
  one.
\<close>

theorem add_after_delete_counterexample:
  "map (\<lambda>c. (c_id c, c_sort_order c)) (carousel_items example_after_deletes) = [(3, 2)]
   \<and> fst (add_carousel_item True (Some example_upload) [] [] example_after_deletes) = added_ok
   \<and> map (\<lambda>c. (c_id c, c_sort_order c))
        (carousel_items (snd (add_carousel_item True (Some example_upload) [] [] example_after_deletes)))
       = [(3, 2), (4, 1)]
   \<and> map c_id (carousel_listing
                  (snd (add_carousel_item True (Some example_upload) [] [] example_after_deletes)))
       = [4, 3]"
proof -
  have al: "allowed_file ''Photo.JPG''" by code_simp
  have st: "storable 1" "storable 2" by (simp_all add: storable_def)
  have d: "map (\<lambda>c. (c_id c, c_sort_order c)) (carousel_items example_after_deletes) = [(3, 2)]"
    by (simp add: example_after_deletes_def add_carousel_item_def example_upload_def al
        delete_carousel_item_def st get_item_def empty_db_def fresh_id_def Let_def)
  then obtain c where c: "carousel_items example_after_deletes = [c]"
    and ci: "c_id c = 3" and co: "c_sort_order c = 2"
    by (cases "carousel_items example_after_deletes") auto
  show ?thesis
    using d c ci co
    by (simp add: add_carousel_item_def example_upload_def al added_ok_def fresh_id_def
        carousel_listing_def order_by_def Let_def)
qed

text \<open>
  C9, as the code has it. Whenever every request of a sequence of \<^verbatim>\<open>add_carousel_item\<close>
  requests succeeds, each request inserts one item whose \<^verbatim>\<open>sort_order\<close> is the number of
  items that existed just before it was inserted. Three successful requests on an empty
  table leave the \<^verbatim>\<open>sort_order\<close> values 0, 1, 2. When every existing item has a
  \<^verbatim>\<open>sort_order\<close> below the number of existing items, the new items are shown at the end of
  the current order, in the order of their creation.
\<close>

theorem add_carousel_item_appends:
  assumes "list_all (\<lambda>r. r = added_ok) (fst (add_carousel_items reqs s))"
  shows "\<exists>news. carousel_items (snd (add_carousel_items reqs s)) = carousel_items s @ news
           \<and> length news = length reqs
           \<and> (\<forall>k < length news. c_sort_order (news ! k) = int (length (carousel_items s) + k))
           \<and> (carousel_items s = [] \<and> length reqs = 3 \<longrightarrow>
                map c_sort_order (carousel_items (snd (add_carousel_items reqs s))) = [0, 1, 2])
           \<and> ((\<forall>c \<in> set (carousel_items s). c_sort_order c < int (length (carousel_items s))) \<longrightarrow>
                carousel_listing (snd (add_carousel_items reqs s)) = carousel_listing s @ news)"
proof -
  let ?le = "\<lambda>x y. c_sort_order x \<le> c_sort_order y"
  let ?n = "length (carousel_items s)"
  from add_carousel_items_sort_order[OF assms] obtain news where
    r: "snd (add_carousel_items reqs s) = s\<lparr>carousel_items := carousel_items s @ news\<rparr>"
    and m: "map c_sort_order news = map int [?n ..< ?n + length reqs]"
    by blast
  from m have len: "length news = length reqs"
    using length_map[of c_sort_order news] by simp
  have each: "\<forall>k < length news. c_sort_order (news ! k) = int (?n + k)"
  proof (intro allI impI)
    fix k assume k: "k < length news"
    then have "c_sort_order (news ! k) = map c_sort_order news ! k" by simp
    also have "\<dots> = int (?n + k)" using k len by (simp add: m)
    finally show "c_sort_order (news ! k) = int (?n + k)" .
  qed
  have three: "map c_sort_order (carousel_items (snd (add_carousel_items reqs s))) = [0, 1, 2]"
    if "carousel_items s = []" "length reqs = 3"
  proof -
    have "[0..<3] = [0, 1, 2::nat]" by (simp add: upt_conv_Cons)
    with that r m show ?thesis by simp
  qed
  have srt: "sorted_wrt ?le news"
    using each by (auto simp: sorted_wrt_iff_nth_less)
  have atend: "carousel_listing (snd (add_carousel_items reqs s)) = carousel_listing s @ news"
    if below: "\<forall>c \<in> set (carousel_items s). c_sort_order c < int ?n"
  proof -
    have "\<forall>x \<in> set (carousel_items s). \<forall>y \<in> set news. ?le x y"
    proof (intro ballI)
      fix x y assume x: "x \<in> set (carousel_items s)" and "y \<in> set news"
      then obtain k where "k < length news" "y = news ! k" by (auto simp: in_set_conv_nth)
      with each have "c_sort_order y = int (?n + k)" by simp
      with below x show "c_sort_order x \<le> c_sort_order y" by fastforce
    qed
    from order_by_append[OF srt this] show ?thesis
      by (simp add: carousel_listing_def r)
  qed
  from r len each three atend show ?thesis by auto
qed

theorem add_carousel_item_appends_witness:
  "list_all (\<lambda>r. r = added_ok)
     (fst (add_carousel_items [(True, Some example_upload, [], []),
             (True, Some example_upload, ''https://a.example'', ''A''),
             (True, Some example_upload, [], [])] empty_db))
   \<and> carousel_items empty_db = []
   \<and> map c_sort_order (carousel_items (snd (add_carousel_items [(True, Some example_upload, [], []),
             (True, Some example_upload, ''https://a.example'', ''A''),
             (True, Some example_upload, [], [])] empty_db))) = [0, 1, 2]
   \<and> list_all (\<lambda>r. r = added_ok)
        (fst (add_carousel_items [(True, Some example_upload, [], [])] example_db))
   \<and> map c_sort_order (carousel_items example_db) = [0, 1, 2]
   \<and> map (\<lambda>c. (c_id c, c_sort_order c))
        (carousel_listing (snd (add_carousel_items [(True, Some example_upload, [], [])] example_db)))
       = [(1, 0), (2, 1), (3, 2), (4, 3)]"
proof -
  let ?reqs = "[(True, Some example_upload, [], []),
             (True, Some example_upload, ''https://a.example'', ''A''),
             (True, Some example_upload, [], [])]"
  let ?one = "[(True, Some example_upload, [], [])]"
  have al: "allowed_file ''Photo.JPG''"
    by code_simp
  have ok: "list_all (\<lambda>r. r = added_ok) (fst (add_carousel_items ?reqs empty_db))"
    by (simp add: add_carousel_item_def example_upload_def al added_ok_def Let_def split_beta)
  have e: "carousel_items empty_db = []" by (simp add: empty_db_def)
  from add_carousel_item_appends[OF ok] e
  have z: "map c_sort_order (carousel_items (snd (add_carousel_items ?reqs empty_db))) = [0, 1, 2]"
    by auto
  have ok1: "list_all (\<lambda>r. r = added_ok) (fst (add_carousel_items ?one example_db))"
    by (simp add: add_carousel_item_def example_upload_def al added_ok_def Let_def split_beta)
  have so: "map c_sort_order (carousel_items example_db) = [0, 1, 2]"
    by (simp add: example_db_def)
  have below: "\<forall>c \<in> set (carousel_items example_db).
                 c_sort_order c < int (length (carousel_items example_db))"
    by (simp add: example_db_def)
  have l: "carousel_listing example_db = carousel_items example_db"
    by (simp add: carousel_listing_def order_by_def example_db_def)
  from add_carousel_item_appends[OF ok1] below l
  have "carousel_listing (snd (add_carousel_items ?one example_db))
        = carousel_items (snd (add_carousel_items ?one example_db))"
    by auto
  moreover have "map (\<lambda>c. (c_id c, c_sort_order c))
        (carousel_items (snd (add_carousel_items ?one example_db)))
       = [(1, 0), (2, 1), (3, 2), (4, 3)]"
    by (simp add: add_carousel_item_def example_upload_def al Let_def split_beta example_db_def
        fresh_id_def)
  ultimately have v: "map (\<lambda>c. (c_id c, c_sort_order c))
        (carousel_listing (snd (add_carousel_items ?one example_db)))
       = [(1, 0), (2, 1), (3, 2), (4, 3)]" by simp
  from ok e z ok1 so v show ?thesis by simp
qed

section \<open>The contact form\<close>

text \<open>
  C10. For a submission whose name, email, subject and message are non-empty after
  stripping: when the commit succeeds, the row with \<^verbatim>\<open>is_read\<close> false is in the table and
  the commit comes before the call of \<^verbatim>\<open>send_contact_email\<close>; the state is the same whether
  the email succeeds or fails, only the flashed message differs (\<^verbatim>\<open>contact_success\<close> or
  \<^verbatim>\<open>contact_email_error\<close>). When the commit fails, the state is unchanged and no email is
  attempted.
\<close>

theorem contact_commit_before_email:
  assumes "strip (cf_name form) \<noteq> []" and "strip (cf_email form) \<noteq> []"
    and "strip (cf_subject form) \<noteq> []" and "strip (cf_message form) \<noteq> []"
  shows "contact True True form s
           = (Flashed Success ''contact_success'',
              s\<lparr>contact_messages := contact_messages s @ [new_message form s]\<rparr>,
              [Db_commit, Send_contact_email])
       \<and> contact True False form s
           = (Flashed Warning ''contact_email_error'',
              s\<lparr>contact_messages := contact_messages s @ [new_message form s]\<rparr>,
              [Db_commit, Send_contact_email])
       \<and> contact False email_ok form s = (Flashed Error ''contact_error_save'', s, [Db_rollback])
       \<and> m_is_read (new_message form s) = False"
  using assms by (simp add: contact_def new_message_def Let_def)

theorem contact_commit_before_email_witness:
  "strip (cf_name example_contact) \<noteq> [] \<and> strip (cf_email example_contact) \<noteq> []
   \<and> strip (cf_subject example_contact) \<noteq> [] \<and> strip (cf_message example_contact) \<noteq> []
   \<and> fst (snd (contact True False example_contact empty_db))
       = fst (snd (contact True True example_contact empty_db))
   \<and> contact_messages (fst (snd (contact True False example_contact empty_db)))
       = [\<lparr>m_id = 1, m_name = ''Ana'', m_email = ''ana@example.com'', m_phone = [],
           m_subject = ''Visit'', m_message = ''Hello'', m_is_read = False\<rparr>]
   \<and> snd (snd (contact True False example_contact empty_db)) = [Db_commit, Send_contact_email]"
proof -
  have n: "strip (cf_name example_contact) = ''Ana''"
    and e: "strip (cf_email example_contact) = ''ana@example.com''"
    and p: "strip (cf_phone example_contact) = []"
    and u: "strip (cf_subject example_contact) = ''Visit''"
    and m: "strip (cf_message example_contact) = ''Hello''"
    by (simp_all add: example_contact_def strip_def py_isspace_def)
  have v: "new_message example_contact empty_db
       = \<lparr>m_id = 1, m_name = ''Ana'', m_email = ''ana@example.com'', m_phone = [],
           m_subject = ''Visit'', m_message = ''Hello'', m_is_read = False\<rparr>"
    by (simp add: new_message_def n e p u m empty_db_def fresh_id_def)
  have c: "contact_messages empty_db = []" by (simp add: empty_db_def)
  show ?thesis
    using contact_commit_before_email[of example_contact empty_db] n e u m v c by simp
qed

section \<open>The public listing\<close>

lemma set_insort_by: "set (insort_by le x xs) = insert x (set xs)"
  by (induction xs) auto

lemma set_order_by: "set (order_by le xs) = set xs"
  by (induction xs) (simp_all add: order_by_def set_insort_by)

lemma index_agencies_have_plan:
  "a \<in> set (index_agencies s) \<Longrightarrow>
   a \<in> set (agencies s) \<and> a_is_active a \<and> (\<exists>p \<in> set (plans s). a_plan_id a = Some (p_id p))"
  by (auto simp: index_agencies_def set_order_by join_plan_def)

text \<open>
  C1. By \<open>index_agencies_have_plan\<close> the listing of \<^verbatim>\<open>index\<close> holds only agencies whose
  \<^verbatim>\<open>plan_id\<close> is the key of a plan. On the sample state the agency Orpi is active and has no
  plan: \<^verbatim>\<open>index\<close> lists Century alone, while \<^verbatim>\<open>sitemap_xml\<close> lists both.
\<close>

theorem index_drops_agency_without_plan:
  "map a_name (filter (\<lambda>a. a_is_active a \<and> a_plan_id a = None) (agencies example_db)) = [''Orpi'']
   \<and> map a_name (index_agencies example_db) = [''Century'']
   \<and> map a_name (sitemap_agencies example_db) = [''Century'', ''Orpi'']"
  by (simp add: example_db_def index_agencies_def sitemap_agencies_def join_plan_def order_by_def)

section \<open>Adding agency images\<close>

lemma add_images_loop_primary:
  "\<exists>news. fst (add_images_loop agency_id alt loaded files (imgs, n)) = imgs @ news
      \<and> list_all (\<lambda>i. i_agency_id i = agency_id \<and> i_is_primary i = (loaded = [])) news
      \<and> snd (add_images_loop agency_id alt loaded files (imgs, n)) = n + length news"
proof (induction files arbitrary: imgs n)
  case Nil
  show ?case by simp
next
  case (Cons f fs)
  show ?case
  proof (cases "accepted f \<and> u_saved f \<noteq> None \<and> u_saved f \<noteq> Some []")
    case False
    with Cons.IH[of imgs n] show ?thesis by (auto split: option.splits)
  next
    case True
    then obtain fn where fn: "u_saved f = Some fn" "fn \<noteq> []" "accepted f" by auto
    let ?row = "\<lparr>i_id = fresh_id (map i_id imgs), i_agency_id = agency_id,
                 i_image_filename = fn, i_alt_text = alt, i_is_primary = (loaded = []),
                 i_sort_order = int (length (filter (\<lambda>i. i_agency_id i = agency_id) imgs))\<rparr>"
    from Cons.IH[of "imgs @ [?row]" "n + 1"] obtain news where
      "fst (add_images_loop agency_id alt loaded fs (imgs @ [?row], n + 1)) = (imgs @ [?row]) @ news"
      "list_all (\<lambda>i. i_agency_id i = agency_id \<and> i_is_primary i = (loaded = [])) news"
      "snd (add_images_loop agency_id alt loaded fs (imgs @ [?row], n + 1)) = n + 1 + length news"
      by blast
    with fn show ?thesis
      by (intro exI[of _ "?row # news"]) simp
  qed
qed

text \<open>
  C8. By \<open>add_images_loop_primary\<close> every row that one request adds has the same
  \<^verbatim>\<open>is_primary\<close>: true exactly when the agency had no image when the request began. On the
  sample state without images, one request with two valid files for agency 1 stores two
  rows, both with \<^verbatim>\<open>is_primary\<close> set.
\<close>

theorem add_agency_images_two_primary:
  "agency_images (example_db\<lparr>agency_images := []\<rparr>) = []
   \<and> fst (add_agency_images True 1 (Some [example_upload, example_upload]) None
            (example_db\<lparr>agency_images := []\<rparr>))
       = Flashed Success ''2 imagen(es) agregada(s) exitosamente''
   \<and> map (\<lambda>i. (i_agency_id i, i_is_primary i, i_sort_order i))
        (agency_images (snd (add_agency_images True 1 (Some [example_upload, example_upload]) None
            (example_db\<lparr>agency_images := []\<rparr>))))
       = [(1, True, 0), (1, True, 1)]"
proof -
  have al: "accepted example_upload"
    unfolding accepted_def example_upload_def by code_simp
  have sv: "u_saved example_upload = Some ''0f3a.JPG''" by (simp add: example_upload_def)
  have g: "get_agency (agencies example_db) 1 = Some (agencies example_db ! 0)"
    by (simp add: example_db_def get_agency_def)
  have two: "str_nat 2 = ''2''" by code_simp
  have lp: "add_images_loop 1 alt [] [example_upload, example_upload] ([], 0)
        = ([\<lparr>i_id = 1, i_agency_id = 1, i_image_filename = ''0f3a.JPG'', i_alt_text = alt,
             i_is_primary = True, i_sort_order = 0\<rparr>,
            \<lparr>i_id = 2, i_agency_id = 1, i_image_filename = ''0f3a.JPG'', i_alt_text = alt,
             i_is_primary = True, i_sort_order = 1\<rparr>], 2)" for alt
    by (simp add: al sv fresh_id_def)
  show ?thesis
    by (simp add: add_agency_images_def g lp two Let_def
        del: str_nat.simps add_images_loop.simps)
qed

end
